theory Spec2Isabelle
  imports Main
begin

section \<open>Data model of the backend (src/backend/main.go)\<close>

text \<open>
  Go strings are byte strings (\<open>string\<close>), \<open>int64\<close> user ids and Go \<open>int\<close> counters
  are only stored and compared, never computed with, and are modelled as \<open>int\<close>.
  A \<open>time.Time\<close> is an instant (\<open>int\<close>); a \<open>*time.Time\<close> is an \<open>option\<close>.
\<close>

type_synonym time = int

record Search =
  Search_ID :: string
  Search_UserID :: int
  Search_Keyword :: string
  Search_Status :: string
  Search_LeadsFound :: int
  Search_CreatedAt :: time

record Lead =
  Lead_ID :: string
  Lead_SearchID :: string
  Lead_CompanyName :: string
  Lead_Phone :: string
  Lead_Website :: string
  Lead_Email :: string
  Lead_PageSpeed :: int

record ScrapedLead =
  Title :: string
  Phone :: string
  Website :: string
  Emails :: "string list"

record CrmLead =
  CrmLead_ID :: string
  CrmLead_CompanyName :: string
  CrmLead_Phone :: string
  CrmLead_Website :: string
  CrmLead_Email :: string
  CrmLead_PageSpeed :: int
  CrmLead_ColumnID :: string
  CrmLead_Notes :: string
  CrmLead_TimesCalled :: int
  CrmLead_CallBackDate :: "time option"

subsection \<open>Tables\<close>

text \<open>
  One record per row, with the columns of \<open>createTables\<close>; a column without
  \<open>NOT NULL\<close> holds an \<open>option\<close> (\<open>None\<close> is SQL NULL). A table is the list of its
  rows in insertion order. The primary keys are enforced where rows are inserted;
  SQLite does not enforce the foreign keys (the pragma is never switched on).
\<close>

record searches_row =
  s_id :: string
  s_user_id :: int
  s_keyword :: string
  s_status :: string
  s_leads_found :: "int option"
  s_created_at :: "time option"

record leads_row =
  l_id :: string
  l_search_id :: string
  l_company_name :: "string option"
  l_phone :: "string option"
  l_website :: "string option"
  l_email :: "string option"
  l_page_speed :: "int option"
  l_scraped_at :: "time option"

record crm_leads_row =
  c_user_id :: int
  c_lead_id :: string
  c_column_id :: string
  c_notes :: "string option"
  c_times_called :: "int option"
  c_callback_date :: "time option"
  c_company_name :: "string option"
  c_phone :: "string option"
  c_website :: "string option"
  c_email :: "string option"
  c_page_speed :: "int option"

record db =
  searches :: "searches_row list"
  leads :: "leads_row list"
  crm_leads :: "crm_leads_row list"

text \<open>
  The store can refuse any statement (locked file, I/O error). Which operation of a
  call fails is an input of the model: \<open>env op\<close> is true when the store answers
  \<open>op\<close> with an error.
\<close>

datatype db_op =
  OpBegin | OpPrepare | OpInsert nat | OpUpdate | OpCommit
  | OpStatus | OpQueryRow | OpQuery | OpRowsErr | OpExec

type_synonym store_env = "db_op \<Rightarrow> bool"

subsection \<open>HTTP responses\<close>

record crm_board =
  board_leads :: "string \<rightharpoonup> CrmLead"
  board_tobe_called :: "string list"
  board_contacted :: "string list"

text \<open>
  The body handed to \<open>c.JSON\<close>. \<open>H_error\<close> is \<open>gin.H{"error": msg}\<close> (a "details" entry
  with the driver's text is not modelled), \<open>H_bind_error\<close> is the body whose message is
  the binding library's own text.
\<close>

datatype body =
  H_error string
  | H_bind_error
  | H_message string
  | JSON_Search Search
  | JSON_Leads "Lead list"
  | JSON_CrmLead CrmLead
  | JSON_Crm crm_board

record response =
  code :: nat
  body :: body

abbreviation StatusOK :: nat where "StatusOK \<equiv> 200"
abbreviation StatusAccepted :: nat where "StatusAccepted \<equiv> 202"
abbreviation StatusBadRequest :: nat where "StatusBadRequest \<equiv> 400"
abbreviation StatusForbidden :: nat where "StatusForbidden \<equiv> 403"
abbreviation StatusInternalServerError :: nat where "StatusInternalServerError \<equiv> 500"

definition JSON :: "nat \<Rightarrow> body \<Rightarrow> response" where
  "JSON c b = \<lparr>code = c, body = b\<rparr>"

section \<open>Handlers\<close>

text \<open>
  Every handler runs behind \<open>authMiddleware\<close>; \<open>userID\<close> is the value the middleware
  stored in the context. A request body that \<open>ShouldBindJSON\<close> rejects is \<open>None\<close>.
\<close>

subsection \<open>startSearchHandler\<close>

text \<open>
  \<open>searchID\<close> is the result of \<open>uuid.New().String()\<close> and \<open>now\<close> that of
  \<open>time.Now()\<close>, which goes into the response only: the INSERT names no
  \<open>created_at\<close>, so the row gets SQLite's \<open>CURRENT_TIMESTAMP\<close>, \<open>dbnow\<close>, and the
  default 0 of \<open>leads_found\<close>. The keyword is bound with \<open>binding:"required"\<close>, which
  rejects the empty string, the value of an absent key. The INSERT fails on a
  duplicate primary key. The third component is the list of jobs handed to
  \<open>go runScraper\<close>.
\<close>

definition startSearchHandler ::
  "store_env \<Rightarrow> int \<Rightarrow> string option \<Rightarrow> string \<Rightarrow> time \<Rightarrow> time \<Rightarrow> db
     \<Rightarrow> db \<times> response \<times> Search list" where
  "startSearchHandler env userID input searchID now dbnow d =
     (case input of
        None \<Rightarrow> (d, JSON StatusBadRequest H_bind_error, [])
      | Some keyword \<Rightarrow>
          if keyword = [] then (d, JSON StatusBadRequest H_bind_error, [])
          else
            let newSearch = \<lparr>Search_ID = searchID, Search_UserID = userID,
                  Search_Keyword = keyword, Search_Status = ''In Progress'',
                  Search_LeadsFound = 0, Search_CreatedAt = now\<rparr>
            in if env OpExec \<or> Search_ID newSearch \<in> s_id ` set (searches d)
               then (d, JSON StatusInternalServerError (H_error ''Failed to create search job''), [])
               else (d\<lparr>searches := searches d @
                        [\<lparr>s_id = Search_ID newSearch, s_user_id = Search_UserID newSearch,
                          s_keyword = Search_Keyword newSearch, s_status = Search_Status newSearch,
                          s_leads_found = Some 0, s_created_at = Some dbnow\<rparr>]\<rparr>,
                     JSON StatusAccepted (JSON_Search newSearch), [newSearch]))"

subsection \<open>getLeadsForSearchHandler\<close>

text \<open>
  \<open>QueryRow(...).Scan(&ownerID)\<close>: an error when the store fails or no row has the id,
  otherwise the owner of the (first) row.
\<close>

definition query_owner :: "store_env \<Rightarrow> string \<Rightarrow> db \<Rightarrow> int option" where
  "query_owner env searchID d =
     (if env OpQueryRow then None
      else case filter (\<lambda>r. s_id r = searchID) (searches d) of
             [] \<Rightarrow> None
           | r # _ \<Rightarrow> Some (s_user_id r))"

definition NullString :: "string option \<Rightarrow> string" where
  "NullString v = (case v of None \<Rightarrow> [] | Some s \<Rightarrow> s)"

definition NullInt64 :: "int option \<Rightarrow> int" where
  "NullInt64 v = (case v of None \<Rightarrow> 0 | Some n \<Rightarrow> n)"

text \<open>
  The row loop: \<open>company_name\<close> is scanned into a plain string, so a NULL there is a
  scan error and the row is skipped; the other columns go through \<open>sql.Null*\<close>.
\<close>

fun scan_leads :: "leads_row list \<Rightarrow> Lead list" where
  "scan_leads [] = []"
| "scan_leads (r # rs) =
     (case l_company_name r of
        None \<Rightarrow> scan_leads rs
      | Some cn \<Rightarrow>
          \<lparr>Lead_ID = l_id r, Lead_SearchID = l_search_id r, Lead_CompanyName = cn,
            Lead_Phone = NullString (l_phone r), Lead_Website = NullString (l_website r),
            Lead_Email = NullString (l_email r), Lead_PageSpeed = NullInt64 (l_page_speed r)\<rparr>
          # scan_leads rs)"

definition getLeadsForSearchHandler :: "store_env \<Rightarrow> int \<Rightarrow> string \<Rightarrow> db \<Rightarrow> response" where
  "getLeadsForSearchHandler env userID searchID d =
     (case query_owner env searchID d of
        None \<Rightarrow> JSON StatusForbidden (H_error ''Access denied'')
      | Some ownerID \<Rightarrow>
          if ownerID \<noteq> userID then JSON StatusForbidden (H_error ''Access denied'')
          else if env OpQuery
          then JSON StatusInternalServerError (H_error ''Failed to retrieve leads'')
          else JSON StatusOK
                 (JSON_Leads (scan_leads (filter (\<lambda>r. l_search_id r = searchID) (leads d)))))"

subsection \<open>getCrmHandler\<close>

definition scan_crm :: "crm_leads_row \<Rightarrow> CrmLead" where
  "scan_crm r =
     \<lparr>CrmLead_ID = c_lead_id r,
      CrmLead_CompanyName = NullString (c_company_name r),
      CrmLead_Phone = NullString (c_phone r),
      CrmLead_Website = NullString (c_website r),
      CrmLead_Email = NullString (c_email r),
      CrmLead_PageSpeed = NullInt64 (c_page_speed r),
      CrmLead_ColumnID = c_column_id r,
      CrmLead_Notes = NullString (c_notes r),
      CrmLead_TimesCalled = NullInt64 (c_times_called r),
      CrmLead_CallBackDate = c_callback_date r\<rparr>"

text \<open>
  The loop over the rows, carrying the two Go maps \<open>crmLeads\<close> and \<open>columns\<close>; a lead id
  is appended only to a column that is already a key of \<open>columns\<close>.
\<close>

fun crm_loop ::
  "crm_leads_row list \<Rightarrow> (string \<rightharpoonup> CrmLead) \<Rightarrow> (string \<rightharpoonup> string list)
     \<Rightarrow> (string \<rightharpoonup> CrmLead) \<times> (string \<rightharpoonup> string list)" where
  "crm_loop [] crmLeads columns = (crmLeads, columns)"
| "crm_loop (r # rs) crmLeads columns =
     (let cl = scan_crm r;
          crmLeads' = crmLeads(CrmLead_ID cl \<mapsto> cl);
          columns' = (case columns (CrmLead_ColumnID cl) of
                        None \<Rightarrow> columns
                      | Some ids \<Rightarrow> columns(CrmLead_ColumnID cl \<mapsto> ids @ [CrmLead_ID cl]))
      in crm_loop rs crmLeads' columns')"

definition column_ids :: "(string \<rightharpoonup> string list) \<Rightarrow> string \<Rightarrow> string list" where
  "column_ids columns k = (case columns k of None \<Rightarrow> [] | Some ids \<Rightarrow> ids)"

text \<open>
  The order of the rows. The SELECT has no ORDER BY; SQLite answers
  \<open>WHERE user_id = ?\<close> from the index of the primary key \<open>(user_id, lead_id)\<close>, so the
  rows of one user come ordered by \<open>lead_id\<close>, compared byte by byte with a proper
  prefix first, and rows with equal ids in the order of their insertion.
\<close>

fun memcmp_le :: "string \<Rightarrow> string \<Rightarrow> bool" where
  "memcmp_le [] ys = True"
| "memcmp_le (x # xs) [] = False"
| "memcmp_le (x # xs) (y # ys) =
     ((of_char x :: nat) < of_char y \<or> (x = y \<and> memcmp_le xs ys))"

fun index_insert :: "crm_leads_row \<Rightarrow> crm_leads_row list \<Rightarrow> crm_leads_row list" where
  "index_insert r [] = [r]"
| "index_insert r (x # xs) =
     (if memcmp_le (c_lead_id r) (c_lead_id x) then r # x # xs else x # index_insert r xs)"

fun index_order :: "crm_leads_row list \<Rightarrow> crm_leads_row list" where
  "index_order [] = []"
| "index_order (r # rs) = index_insert r (index_order rs)"

definition getCrmHandler :: "store_env \<Rightarrow> int \<Rightarrow> db \<Rightarrow> response" where
  "getCrmHandler env userID d =
     (if env OpQuery then JSON StatusInternalServerError (H_error ''Failed to fetch CRM data'')
      else
        let (crmLeads, columns) =
              crm_loop (index_order (filter (\<lambda>r. c_user_id r = userID) (crm_leads d)))
                Map.empty [''tobe-called'' \<mapsto> [], ''contacted'' \<mapsto> []]
        in if env OpRowsErr
           then JSON StatusInternalServerError (H_error ''Error during CRM data iteration'')
           else JSON StatusOK (JSON_Crm
                  \<lparr>board_leads = crmLeads,
                   board_tobe_called = column_ids columns ''tobe-called'',
                   board_contacted = column_ids columns ''contacted''\<rparr>))"

subsection \<open>addLeadsToCrmHandler\<close>

text \<open>
  \<open>INSERT OR IGNORE\<close>: a row whose primary key \<open>(user_id, lead_id)\<close> is already in the
  table is skipped; a new row gets the column \<open>'tobe-called'\<close>, the default 0 for
  \<open>times_called\<close> and NULL notes and callback date.
\<close>

definition crm_key_present :: "int \<Rightarrow> string \<Rightarrow> crm_leads_row list \<Rightarrow> bool" where
  "crm_key_present userID leadID tbl =
     (\<exists>r \<in> set tbl. c_user_id r = userID \<and> c_lead_id r = leadID)"

definition insert_or_ignore :: "int \<Rightarrow> Lead \<Rightarrow> crm_leads_row list \<Rightarrow> crm_leads_row list" where
  "insert_or_ignore userID lead tbl =
     (if crm_key_present userID (Lead_ID lead) tbl then tbl
      else tbl @
        [\<lparr>c_user_id = userID, c_lead_id = Lead_ID lead, c_column_id = ''tobe-called'',
          c_notes = None, c_times_called = Some 0, c_callback_date = None,
          c_company_name = Some (Lead_CompanyName lead), c_phone = Some (Lead_Phone lead),
          c_website = Some (Lead_Website lead), c_email = Some (Lead_Email lead),
          c_page_speed = Some (Lead_PageSpeed lead)\<rparr>])"

text \<open>The loop inside the transaction: \<open>None\<close> when an \<open>Exec\<close> fails.\<close>

fun add_loop ::
  "store_env \<Rightarrow> int \<Rightarrow> nat \<Rightarrow> Lead list \<Rightarrow> crm_leads_row list \<Rightarrow> crm_leads_row list option" where
  "add_loop env userID i [] tbl = Some tbl"
| "add_loop env userID i (lead # rest) tbl =
     (if env (OpInsert i) then None
      else add_loop env userID (Suc i) rest (insert_or_ignore userID lead tbl))"

text \<open>
  The result of \<open>tx.Commit()\<close> is dropped: when the commit fails the transaction is
  rolled back and the handler still answers 200.
\<close>

definition addLeadsToCrmHandler ::
  "store_env \<Rightarrow> int \<Rightarrow> Lead list option \<Rightarrow> db \<Rightarrow> db \<times> response" where
  "addLeadsToCrmHandler env userID input d =
     (case input of
        None \<Rightarrow> (d, JSON StatusBadRequest (H_error ''Invalid input''))
      | Some leadsToAdd \<Rightarrow>
          if env OpBegin
          then (d, JSON StatusInternalServerError (H_error ''Failed to start transaction''))
          else if env OpPrepare
          then (d, JSON StatusInternalServerError (H_error ''Failed to prepare statement''))
          else case add_loop env userID 0 leadsToAdd (crm_leads d) of
                 None \<Rightarrow> (d, JSON StatusInternalServerError (H_error ''Failed to add lead to CRM''))
               | Some tbl \<Rightarrow>
                   (if env OpCommit then d else d\<lparr>crm_leads := tbl\<rparr>,
                    JSON StatusOK (H_message ''Leads added to CRM successfully'')))"

subsection \<open>updateCrmStateHandler\<close>

record move_input =
  LeadID :: string
  NewColumnID :: string

definition updateCrmStateHandler ::
  "store_env \<Rightarrow> int \<Rightarrow> move_input option \<Rightarrow> db \<Rightarrow> db \<times> response" where
  "updateCrmStateHandler env userID input d =
     (case input of
        None \<Rightarrow> (d, JSON StatusBadRequest (H_error ''Invalid input''))
      | Some inp \<Rightarrow>
          if env OpExec
          then (d, JSON StatusInternalServerError (H_error ''Failed to update CRM state''))
          else (d\<lparr>crm_leads :=
                    map (\<lambda>r. if c_user_id r = userID \<and> c_lead_id r = LeadID inp
                              then r\<lparr>c_column_id := NewColumnID inp\<rparr> else r)
                        (crm_leads d)\<rparr>,
                JSON StatusOK (H_message ''CRM state updated'')))"

subsection \<open>updateCrmLeadHandler\<close>

definition updateCrmLeadHandler ::
  "store_env \<Rightarrow> int \<Rightarrow> string \<Rightarrow> CrmLead option \<Rightarrow> db \<Rightarrow> db \<times> response" where
  "updateCrmLeadHandler env userID leadID input d =
     (case input of
        None \<Rightarrow> (d, JSON StatusBadRequest (H_error ''Invalid input''))
      | Some updatedLead \<Rightarrow>
          if env OpExec
          then (d, JSON StatusInternalServerError (H_error ''Failed to update lead details''))
          else (d\<lparr>crm_leads :=
                    map (\<lambda>r. if c_user_id r = userID \<and> c_lead_id r = leadID
                              then r\<lparr>c_notes := Some (CrmLead_Notes updatedLead),
                                     c_times_called := Some (CrmLead_TimesCalled updatedLead),
                                     c_callback_date := CrmLead_CallBackDate updatedLead\<rparr>
                              else r)
                        (crm_leads d)\<rparr>,
                JSON StatusOK (JSON_CrmLead updatedLead)))"

section \<open>Scraper logic\<close>

subsection \<open>The output file as the decoder sees it\<close>

text \<open>
  \<open>encoding/json\<close> is a library; its decoder is modelled on the sequence of top-level
  items it finds in the file: a well-formed JSON value, or \<open>Invalid\<close> where reading
  the next value ends in an error other than \<open>io.EOF\<close> (a syntax error, a truncated
  value, a read error). The end of the list is \<open>io.EOF\<close>.
\<close>

datatype json =
  JNull
  | JBool bool
  | JNumber string
  | JString string
  | JArray "json list"
  | JObject "(string \<times> json) list"

datatype chunk = Value json | Invalid

type_synonym fs = "string \<Rightarrow> chunk list option"

text \<open>
  Object keys are matched to the struct tags as \<open>bytes.EqualFold\<close> does: ASCII letters
  without case, and the two non-ASCII letters that fold to ASCII ones, U+017F (to S) and
  U+212A (to K), in their UTF-8 encoding.
\<close>

definition upper :: "char \<Rightarrow> char" where
  "upper c =
     (let n = (of_char c :: nat) in if 97 \<le> n \<and> n \<le> 122 then char_of (n - 32) else c)"

fun foldName :: "string \<Rightarrow> string" where
  "foldName (a # b # c # cs) =
     (if a = CHR 0xE2 \<and> b = CHR 0x84 \<and> c = CHR 0xAA then CHR ''K'' # foldName cs
      else if a = CHR 0xC5 \<and> b = CHR 0xBF then CHR ''S'' # foldName (c # cs)
      else upper a # foldName (b # c # cs))"
| "foldName [a, b] =
     (if a = CHR 0xC5 \<and> b = CHR 0xBF then [CHR ''S''] else [upper a, upper b])"
| "foldName [a] = [upper a]"
| "foldName [] = []"

text \<open>
  Decoding into a Go string: a JSON string is stored, \<open>null\<close> leaves the current
  value, anything else is an \<open>UnmarshalTypeError\<close>. The decoder goes on after a type
  error and reports it at the end; the caller drops the value then, so the model stops
  at once with \<open>None\<close>.
\<close>

fun decode_string :: "string \<Rightarrow> json \<Rightarrow> string option" where
  "decode_string cur (JString s) = Some s"
| "decode_string cur JNull = Some cur"
| "decode_string cur _ = None"

text \<open>
  Decoding an array into \<open>[]string\<close>. A slice is a window on a backing array, and the
  decoder reuses that array: element \<open>i\<close> is decoded into the array's element \<open>i\<close>,
  growing the array when \<open>i\<close> reaches its capacity, so \<open>null\<close> at index \<open>i\<close> leaves
  what the array holds there, also past the slice's length. \<open>backing\<close> is the content
  of the array; past its end the array holds zero strings or does not exist yet, and
  both read as the zero string.
\<close>

fun decode_elems :: "string list \<Rightarrow> json list \<Rightarrow> string list option" where
  "decode_elems backing [] = Some []"
| "decode_elems backing (j # js) =
     (case decode_string (case backing of [] \<Rightarrow> [] | c # _ \<Rightarrow> c) j of
        None \<Rightarrow> None
      | Some s \<Rightarrow>
          (case decode_elems (case backing of [] \<Rightarrow> [] | _ # cs \<Rightarrow> cs) js of
             None \<Rightarrow> None
           | Some ss \<Rightarrow> Some (s # ss)))"

text \<open>
  The result is the new slice and the new content of its backing array: the decoded
  elements, followed by what the array held behind them. \<open>null\<close> sets the slice to
  nil and an empty array sets it to a fresh empty slice; both drop the array.
\<close>

fun decode_emails :: "string list \<Rightarrow> json \<Rightarrow> (string list \<times> string list) option" where
  "decode_emails backing JNull = Some ([], [])"
| "decode_emails backing (JArray []) = Some ([], [])"
| "decode_emails backing (JArray js) =
     (case decode_elems backing js of
        None \<Rightarrow> None
      | Some es \<Rightarrow> Some (es, es @ drop (length es) backing))"
| "decode_emails backing _ = None"

text \<open>
  The members of an object, in order; a key that matches no tag is skipped.
  \<open>backing\<close> is the backing array of \<open>lead.Emails\<close>.
\<close>

fun decode_fields ::
  "(string \<times> json) list \<Rightarrow> ScrapedLead \<Rightarrow> string list \<Rightarrow> ScrapedLead option" where
  "decode_fields [] lead backing = Some lead"
| "decode_fields ((k, v) # rest) lead backing =
     (if foldName k = foldName ''title'' then
        (case decode_string (Title lead) v of
           None \<Rightarrow> None | Some s \<Rightarrow> decode_fields rest (lead\<lparr>Title := s\<rparr>) backing)
      else if foldName k = foldName ''phone'' then
        (case decode_string (Phone lead) v of
           None \<Rightarrow> None | Some s \<Rightarrow> decode_fields rest (lead\<lparr>Phone := s\<rparr>) backing)
      else if foldName k = foldName ''web_site'' then
        (case decode_string (Website lead) v of
           None \<Rightarrow> None | Some s \<Rightarrow> decode_fields rest (lead\<lparr>Website := s\<rparr>) backing)
      else if foldName k = foldName ''emails'' then
        (case decode_emails backing v of
           None \<Rightarrow> None
         | Some (es, backing') \<Rightarrow> decode_fields rest (lead\<lparr>Emails := es\<rparr>) backing')
      else decode_fields rest lead backing)"

definition zero_ScrapedLead :: ScrapedLead where
  "zero_ScrapedLead = \<lparr>Title = [], Phone = [], Website = [], Emails = []\<rparr>"

text \<open>
  \<open>decoder.Decode(&lead)\<close> on a fresh \<open>ScrapedLead\<close>, whose \<open>Emails\<close> is nil and has
  no backing array: an object fills the struct,
  \<open>null\<close> leaves it as it is, every other value (an array too) is an
  \<open>UnmarshalTypeError\<close>.
\<close>

fun Decode :: "chunk \<Rightarrow> ScrapedLead option" where
  "Decode Invalid = None"
| "Decode (Value (JObject ms)) = decode_fields ms zero_ScrapedLead []"
| "Decode (Value JNull) = Some zero_ScrapedLead"
| "Decode (Value _) = None"

text \<open>The decoding loop of \<open>processScraperOutput\<close>; \<open>None\<close> is the error return.\<close>

fun decode_all :: "chunk list \<Rightarrow> ScrapedLead list \<Rightarrow> ScrapedLead list option" where
  "decode_all [] scrapedLeads = Some scrapedLeads"
| "decode_all (c # cs) scrapedLeads =
     (case Decode c of
        None \<Rightarrow> None
      | Some lead \<Rightarrow> decode_all cs (scrapedLeads @ [lead]))"

subsection \<open>updateSearchStatus and processScraperOutput\<close>

definition updateSearchStatus :: "store_env \<Rightarrow> string \<Rightarrow> string \<Rightarrow> db \<Rightarrow> db" where
  "updateSearchStatus env searchID status d =
     (if env OpStatus then d
      else d\<lparr>searches :=
               map (\<lambda>r. if s_id r = searchID then r\<lparr>s_status := status\<rparr> else r)
                   (searches d)\<rparr>)"

definition first_email :: "ScrapedLead \<Rightarrow> string" where
  "first_email sl = (case Emails sl of [] \<Rightarrow> [] | e # _ \<Rightarrow> e)"

text \<open>
  The insert loop inside the transaction. \<open>uuid i\<close> is the identifier generated for
  the \<open>i\<close>-th lead; an \<open>Exec\<close> fails when the store fails or the identifier is already
  a primary key of \<open>leads\<close>. \<open>None\<close> is the return from inside the loop.
\<close>

fun insert_leads ::
  "store_env \<Rightarrow> (nat \<Rightarrow> string) \<Rightarrow> time \<Rightarrow> string \<Rightarrow> nat \<Rightarrow> ScrapedLead list
     \<Rightarrow> leads_row list \<Rightarrow> leads_row list option" where
  "insert_leads env uuid now searchID i [] tbl = Some tbl"
| "insert_leads env uuid now searchID i (sl # rest) tbl =
     (let leadID = uuid i; email = first_email sl
      in if env (OpInsert i) \<or> leadID \<in> l_id ` set tbl then None
         else insert_leads env uuid now searchID (Suc i) rest
                (tbl @ [\<lparr>l_id = leadID, l_search_id = searchID,
                          l_company_name = Some (Title sl), l_phone = Some (Phone sl),
                          l_website = Some (Website sl), l_email = Some email,
                          l_page_speed = None, l_scraped_at = Some now\<rparr>]))"

text \<open>
  The transaction works on its own copy of the tables; every return before the commit
  runs the deferred \<open>tx.Rollback()\<close>, which drops the copy, and \<open>updateSearchStatus\<close>
  writes outside the transaction, on another connection. Where it is called while the
  transaction still holds the write lock (after an insert has failed, the rollback
  being deferred to the return) the store refuses its UPDATE: that run is the one
  with \<open>env OpStatus\<close> true, as is any other refusal of that statement. When the UPDATE
  inside the transaction fails the function returns without touching the status.
  \<open>now\<close> is the store's \<open>CURRENT_TIMESTAMP\<close>, which fills \<open>scraped_at\<close>.
\<close>

definition processScraperOutput ::
  "store_env \<Rightarrow> (nat \<Rightarrow> string) \<Rightarrow> time \<Rightarrow> fs \<Rightarrow> string \<Rightarrow> string \<Rightarrow> db \<Rightarrow> db" where
  "processScraperOutput env uuid now files searchID outputFileName d =
     (case files outputFileName of
        None \<Rightarrow> updateSearchStatus env searchID ''Failed'' d
      | Some content \<Rightarrow>
          (case decode_all content [] of
             None \<Rightarrow> updateSearchStatus env searchID ''Failed'' d
           | Some scrapedLeads \<Rightarrow>
               if env OpBegin then updateSearchStatus env searchID ''Failed'' d
               else if env OpPrepare then updateSearchStatus env searchID ''Failed'' d
               else
                 (case insert_leads env uuid now searchID 0 scrapedLeads (leads d) of
                    None \<Rightarrow> updateSearchStatus env searchID ''Failed'' d
                  | Some tbl \<Rightarrow>
                      if env OpUpdate then d
                      else if env OpCommit then updateSearchStatus env searchID ''Failed'' d
                      else d\<lparr>leads := tbl,
                             searches :=
                               map (\<lambda>r. if s_id r = searchID
                                         then r\<lparr>s_status := ''Completed'',
                                                s_leads_found := Some (int (length scrapedLeads))\<rparr>
                                         else r)
                                   (searches d)\<rparr>)))"

subsection \<open>runScraper\<close>

text \<open>
  What the operating system and the external tool do in one run: whether creating or
  writing the input file fails, whether the command fails, and what the output file
  holds afterwards (\<open>None\<close> when it cannot be opened).
\<close>

record os_env =
  TempDir :: string
  CreateFails :: bool
  WriteFails :: bool
  CmdFails :: bool
  Output :: "chunk list option"

definition Join :: "string \<Rightarrow> string \<Rightarrow> string" where
  "Join dir name = dir @ ''/'' @ name"

definition runScraper ::
  "os_env \<Rightarrow> store_env \<Rightarrow> (nat \<Rightarrow> string) \<Rightarrow> time \<Rightarrow> Search \<Rightarrow> db \<Rightarrow> db" where
  "runScraper os env uuid now search d =
     (if CreateFails os then updateSearchStatus env (Search_ID search) ''Failed'' d
      else
        let outputFileName = Join (TempDir os) (''output_'' @ Search_ID search @ ''.json'')
        in if WriteFails os then updateSearchStatus env (Search_ID search) ''Failed'' d
           else if CmdFails os then updateSearchStatus env (Search_ID search) ''Failed'' d
           else processScraperOutput env uuid now
                  (\<lambda>name. if name = outputFileName then Output os else None)
                  (Search_ID search) outputFileName d)"

section \<open>The running service\<close>

text \<open>
  The state of the service is the store and the jobs handed to \<open>go runScraper\<close> that
  have not run yet. An event is one request, or one background job running to its
  end: requests and jobs are interleaved as whole steps, which is what the import's
  transaction and the single statements of the other writers give.
\<close>

record sys =
  store :: db
  tasks :: "Search list"

datatype event =
  StartSearch store_env int "string option" string time time
  | RunScraper os_env store_env "nat \<Rightarrow> string" time nat
  | AddLeadsToCrm store_env int "Lead list option"
  | UpdateCrmState store_env int "move_input option"
  | UpdateCrmLead store_env int string "CrmLead option"

fun step :: "event \<Rightarrow> sys \<Rightarrow> sys" where
  "step (StartSearch env userID input searchID now dbnow) s =
     (case startSearchHandler env userID input searchID now dbnow (store s) of
        (d', resp, spawned) \<Rightarrow> \<lparr>store = d', tasks = tasks s @ spawned\<rparr>)"
| "step (RunScraper os env uuid now i) s =
     (if i < length (tasks s)
      then \<lparr>store = runScraper os env uuid now (tasks s ! i) (store s),
            tasks = take i (tasks s) @ drop (Suc i) (tasks s)\<rparr>
      else s)"
| "step (AddLeadsToCrm env userID input) s =
     s\<lparr>store := fst (addLeadsToCrmHandler env userID input (store s))\<rparr>"
| "step (UpdateCrmState env userID input) s =
     s\<lparr>store := fst (updateCrmStateHandler env userID input (store s))\<rparr>"
| "step (UpdateCrmLead env userID leadID input) s =
     s\<lparr>store := fst (updateCrmLeadHandler env userID leadID input (store s))\<rparr>"

fun exec :: "event list \<Rightarrow> sys \<Rightarrow> sys" where
  "exec [] s = s"
| "exec (e # es) s = exec es (step e s)"

definition init :: sys where
  "init = \<lparr>store = \<lparr>searches = [], leads = [], crm_leads = []\<rparr>, tasks = []\<rparr>"

definition count_leads :: "string \<Rightarrow> db \<Rightarrow> nat" where
  "count_leads searchID d = length (filter (\<lambda>l. l_search_id l = searchID) (leads d))"

section \<open>Concrete inputs\<close>

text \<open>A store that never fails.\<close>

definition no_faults :: store_env where
  "no_faults op = False"

text \<open>A CRM table in which two users hold the same lead.\<close>

definition crm_lead_a :: Lead where
  "crm_lead_a = \<lparr>Lead_ID = ''a'', Lead_SearchID = ''j1'', Lead_CompanyName = ''Acme'',
     Lead_Phone = ''555'', Lead_Website = ''acme.com'', Lead_Email = ''a@acme.com'',
     Lead_PageSpeed = 0\<rparr>"

definition crm_db :: db where
  "crm_db = \<lparr>searches = [], leads = [],
     crm_leads = insert_or_ignore 2 crm_lead_a (insert_or_ignore 1 crm_lead_a [])\<rparr>"

definition crm_edit :: CrmLead where
  "crm_edit = \<lparr>CrmLead_ID = ''a'', CrmLead_CompanyName = ''Other'', CrmLead_Phone = ''000'',
     CrmLead_Website = ''other.com'', CrmLead_Email = ''o@other.com'', CrmLead_PageSpeed = 9,
     CrmLead_ColumnID = ''contacted'', CrmLead_Notes = ''call back'', CrmLead_TimesCalled = 3,
     CrmLead_CallBackDate = Some 1700000000\<rparr>"

text \<open>The first job of user 1, and the store after it was accepted.\<close>

definition job1 :: Search where
  "job1 = \<lparr>Search_ID = ''job-1'', Search_UserID = 1, Search_Keyword = ''plumbers in london'',
     Search_Status = ''In Progress'', Search_LeadsFound = 0, Search_CreatedAt = 0\<rparr>"

definition job1_started :: db where
  "job1_started =
     fst (startSearchHandler no_faults 1 (Some ''plumbers in london'') ''job-1'' 0 1 (store init))"

text \<open>The CRM table after user 1 edited the entry, and the same lead scraped again.\<close>

definition crm_lead_a_again :: Lead where
  "crm_lead_a_again = \<lparr>Lead_ID = ''a'', Lead_SearchID = ''j2'', Lead_CompanyName = ''Renamed'',
     Lead_Phone = ''777'', Lead_Website = ''renamed.com'', Lead_Email = ''r@renamed.com'',
     Lead_PageSpeed = 5\<rparr>"

definition crm_db_edited :: db where
  "crm_db_edited = fst (updateCrmLeadHandler no_faults 1 ''a'' (Some crm_edit) crm_db)"

section \<open>Consistency of jobs and leads\<close>

text \<open>
  What holds of every job row: a completed job counts its leads, and a job in progress
  or failed has none and a found-count of 0.
\<close>

definition job_inv :: "db \<Rightarrow> searches_row \<Rightarrow> bool" where
  "job_inv d r \<longleftrightarrow>
     (s_status r = ''Completed'' \<and> s_leads_found r = Some (int (count_leads (s_id r) d))) \<or>
     ((s_status r = ''In Progress'' \<or> s_status r = ''Failed'') \<and>
        s_leads_found r = Some 0 \<and> count_leads (s_id r) d = 0)"

text \<open>All job rows are consistent and every lead refers to a job.\<close>

definition db_inv :: "db \<Rightarrow> bool" where
  "db_inv d \<longleftrightarrow>
     (\<forall>r \<in> set (searches d). job_inv d r) \<and>
     (\<forall>l \<in> set (leads d). l_search_id l \<in> s_id ` set (searches d))"

text \<open>
  The store is consistent, and the jobs still to be run have distinct ids and are in
  progress.
\<close>

definition sys_inv :: "sys \<Rightarrow> bool" where
  "sys_inv s \<longleftrightarrow>
     db_inv (store s) \<and>
     distinct (map Search_ID (tasks s)) \<and>
     (\<forall>j \<in> set (tasks s). \<exists>r \<in> set (searches (store s)).
         s_id r = Search_ID j \<and> s_status r = ''In Progress'')"

text \<open>The store after an import that committed the rows \<open>new\<close> for a job.\<close>

definition completed :: "string \<Rightarrow> nat \<Rightarrow> leads_row list \<Rightarrow> db \<Rightarrow> db" where
  "completed sid n new d =
     d\<lparr>leads := leads d @ new,
       searches := map (\<lambda>r. if s_id r = sid
                              then r\<lparr>s_status := ''Completed'', s_leads_found := Some (int n)\<rparr>
                              else r) (searches d)\<rparr>"

section \<open>The scenarios of the scraper\<close>

text \<open>
  The object \<open>{"title":"Acme","phone":"555","web_site":"acme.com","emails":["a@acme.com"]}\<close>,
  the entry it decodes to and the row it is stored as.
\<close>

definition acme :: json where
  "acme = JObject [(''title'', JString ''Acme''), (''phone'', JString ''555''),
     (''web_site'', JString ''acme.com''), (''emails'', JArray [JString ''a@acme.com''])]"

definition acme_lead :: ScrapedLead where
  "acme_lead = \<lparr>Title = ''Acme'', Phone = ''555'', Website = ''acme.com'',
     Emails = [''a@acme.com'']\<rparr>"

text \<open>
  A supply of lead identifiers, a run of the tool that succeeds and leaves the given
  output, and a file system with one file.
\<close>

definition uuids :: "nat \<Rightarrow> string" where
  "uuids i = ''lead-'' @ replicate i (CHR ''x'')"

definition tool :: "chunk list option \<Rightarrow> os_env" where
  "tool out = \<lparr>TempDir = ''/tmp'', CreateFails = False, WriteFails = False,
     CmdFails = False, Output = out\<rparr>"

text \<open>
  Job 1 is created and its scraper run ends with one object, with a one-element array,
  or with an object followed by malformed text in the output file.
\<close>

definition start_job1 :: event where
  "start_job1 = StartSearch no_faults 1 (Some ''plumbers in london'') ''job-1'' 0 1"

definition trace_stream :: "event list" where
  "trace_stream = [start_job1, RunScraper (tool (Some [Value acme])) no_faults uuids 7 0]"

definition trace_array :: "event list" where
  "trace_array =
     [start_job1, RunScraper (tool (Some [Value (JArray [acme])])) no_faults uuids 7 0]"

definition trace_malformed :: "event list" where
  "trace_malformed =
     [start_job1, RunScraper (tool (Some [Value acme, Invalid])) no_faults uuids 7 0]"

text \<open>
  A store that refuses the status UPDATE of \<open>updateSearchStatus\<close> and nothing else,
  and the run with the malformed output on that store.
\<close>

definition status_refused :: store_env where
  "status_refused op = (op = OpStatus)"

definition trace_status_refused :: "event list" where
  "trace_status_refused =
     [start_job1, RunScraper (tool (Some [Value acme, Invalid])) status_refused uuids 7 0]"

definition one_file :: "string \<Rightarrow> chunk list \<Rightarrow> fs" where
  "one_file name content = (\<lambda>n. if n = name then Some content else None)"

definition acme_row :: "string \<Rightarrow> string \<Rightarrow> time \<Rightarrow> leads_row" where
  "acme_row leadID searchID now =
     \<lparr>l_id = leadID, l_search_id = searchID, l_company_name = Some ''Acme'',
      l_phone = Some ''555'', l_website = Some ''acme.com'', l_email = Some ''a@acme.com'',
      l_page_speed = None, l_scraped_at = Some now\<rparr>"

section \<open>Properties\<close>

lemma crm_db_rows:
  "length (crm_leads crm_db) = 2"
  "c_user_id (crm_leads crm_db ! 0) = 1" "c_lead_id (crm_leads crm_db ! 0) = ''a''"
  "c_user_id (crm_leads crm_db ! 1) = 2" "c_lead_id (crm_leads crm_db ! 1) = ''a''"
  by (simp_all add: crm_db_def insert_or_ignore_def crm_key_present_def crm_lead_a_def)

lemma crm_db_row0:
  "c_company_name (crm_leads crm_db ! 0) = Some ''Acme''"
  "c_column_id (crm_leads crm_db ! 0) = ''tobe-called''"
  by (simp_all add: crm_db_def insert_or_ignore_def crm_key_present_def crm_lead_a_def)

subsection \<open>The CRM field update touches three columns of the caller's entry\<close>

text \<open>
  C8. \<open>updateCrmLeadHandler\<close> leaves the tables of jobs and leads as they are and keeps
  the number and order of the CRM rows. A row of the caller for the given lead id
  changes in \<open>notes\<close>, \<open>times_called\<close> and \<open>callback_date\<close> at most: its column id and
  its snapshot fields (company name, phone, website, email, page speed) are the old
  ones, and after a 200 answer the three columns hold the payload's values. Every
  other row, of another user or for another lead, is unchanged. When the store does
  not fail the answer is 200.
\<close>

theorem updateCrmLeadHandler_frame:
  assumes "updateCrmLeadHandler env userID leadID (Some p) d = (d', resp)"
  shows "searches d' = searches d \<and> leads d' = leads d \<and>
         length (crm_leads d') = length (crm_leads d) \<and>
         (\<not> env OpExec \<longrightarrow> code resp = StatusOK) \<and>
         (\<forall>i < length (crm_leads d).
            if c_user_id (crm_leads d ! i) = userID \<and> c_lead_id (crm_leads d ! i) = leadID
            then crm_leads d' ! i =
                   (crm_leads d ! i)\<lparr>c_notes := c_notes (crm_leads d' ! i),
                     c_times_called := c_times_called (crm_leads d' ! i),
                     c_callback_date := c_callback_date (crm_leads d' ! i)\<rparr>
                 \<and> c_column_id (crm_leads d' ! i) = c_column_id (crm_leads d ! i)
                 \<and> c_company_name (crm_leads d' ! i) = c_company_name (crm_leads d ! i)
                 \<and> c_phone (crm_leads d' ! i) = c_phone (crm_leads d ! i)
                 \<and> c_website (crm_leads d' ! i) = c_website (crm_leads d ! i)
                 \<and> c_email (crm_leads d' ! i) = c_email (crm_leads d ! i)
                 \<and> c_page_speed (crm_leads d' ! i) = c_page_speed (crm_leads d ! i)
                 \<and> (code resp = StatusOK \<longrightarrow>
                       c_notes (crm_leads d' ! i) = Some (CrmLead_Notes p) \<and>
                       c_times_called (crm_leads d' ! i) = Some (CrmLead_TimesCalled p) \<and>
                       c_callback_date (crm_leads d' ! i) = CrmLead_CallBackDate p)
            else crm_leads d' ! i = crm_leads d ! i)"
proof (cases "env OpExec")
  case True
  with assms have "d' = d" "code resp = StatusInternalServerError"
    by (auto simp: updateCrmLeadHandler_def JSON_def)
  then show ?thesis using True by simp
next
  case False
  with assms have
    d': "d' = d\<lparr>crm_leads := map (\<lambda>r. if c_user_id r = userID \<and> c_lead_id r = leadID
                              then r\<lparr>c_notes := Some (CrmLead_Notes p),
                                     c_times_called := Some (CrmLead_TimesCalled p),
                                     c_callback_date := CrmLead_CallBackDate p\<rparr>
                              else r) (crm_leads d)\<rparr>"
    and r: "code resp = StatusOK"
    by (auto simp: updateCrmLeadHandler_def JSON_def)
  show ?thesis using False r by (simp add: d')
qed

theorem updateCrmLeadHandler_frame_witness:
  "c_notes (crm_leads (fst (updateCrmLeadHandler no_faults 1 ''a'' (Some crm_edit) crm_db)) ! 0)
     = Some ''call back''
   \<and> c_company_name (crm_leads (fst (updateCrmLeadHandler no_faults 1 ''a'' (Some crm_edit) crm_db)) ! 0)
     = Some ''Acme''
   \<and> c_column_id (crm_leads (fst (updateCrmLeadHandler no_faults 1 ''a'' (Some crm_edit) crm_db)) ! 0)
     = ''tobe-called''
   \<and> crm_leads (fst (updateCrmLeadHandler no_faults 1 ''a'' (Some crm_edit) crm_db)) ! 1
     = crm_leads crm_db ! 1"
proof -
  obtain d' resp where
    h: "updateCrmLeadHandler no_faults 1 ''a'' (Some crm_edit) crm_db = (d', resp)"
    by (cases "updateCrmLeadHandler no_faults 1 ''a'' (Some crm_edit) crm_db")
  have nf: "\<not> no_faults OpExec" by (simp add: no_faults_def)
  have new: "CrmLead_Notes crm_edit = ''call back''"
    by (simp add: crm_edit_def)
  from updateCrmLeadHandler_frame [OF h] nf crm_db_rows crm_db_row0 new show ?thesis
    by (simp add: h numeral_2_eq_2 All_less_Suc)
qed

subsection \<open>The CRM move touches the column id of the caller's entry\<close>

text \<open>
  C9. \<open>updateCrmStateHandler\<close>, for any lead id and any string as the target column
  (none is rejected), leaves the tables of jobs and leads as they are and keeps the
  number and order of the CRM rows. A row of the caller for the given lead id differs
  from the old one in \<open>column_id\<close> at most, and after a 200 answer its column id is
  the given string. Every other row is unchanged. When the store does not fail the
  answer is 200.
\<close>

theorem updateCrmStateHandler_frame:
  assumes "updateCrmStateHandler env userID (Some \<lparr>LeadID = lid, NewColumnID = col\<rparr>) d = (d', resp)"
  shows "searches d' = searches d \<and> leads d' = leads d \<and>
         length (crm_leads d') = length (crm_leads d) \<and>
         (\<not> env OpExec \<longrightarrow> code resp = StatusOK) \<and>
         (\<forall>i < length (crm_leads d).
            if c_user_id (crm_leads d ! i) = userID \<and> c_lead_id (crm_leads d ! i) = lid
            then crm_leads d' ! i =
                   (crm_leads d ! i)\<lparr>c_column_id := c_column_id (crm_leads d' ! i)\<rparr>
                 \<and> c_notes (crm_leads d' ! i) = c_notes (crm_leads d ! i)
                 \<and> c_times_called (crm_leads d' ! i) = c_times_called (crm_leads d ! i)
                 \<and> c_callback_date (crm_leads d' ! i) = c_callback_date (crm_leads d ! i)
                 \<and> c_company_name (crm_leads d' ! i) = c_company_name (crm_leads d ! i)
                 \<and> c_phone (crm_leads d' ! i) = c_phone (crm_leads d ! i)
                 \<and> c_website (crm_leads d' ! i) = c_website (crm_leads d ! i)
                 \<and> c_email (crm_leads d' ! i) = c_email (crm_leads d ! i)
                 \<and> c_page_speed (crm_leads d' ! i) = c_page_speed (crm_leads d ! i)
                 \<and> (code resp = StatusOK \<longrightarrow> c_column_id (crm_leads d' ! i) = col)
            else crm_leads d' ! i = crm_leads d ! i)"
proof (cases "env OpExec")
  case True
  with assms have "d' = d" "code resp = StatusInternalServerError"
    by (auto simp: updateCrmStateHandler_def JSON_def)
  then show ?thesis using True by simp
next
  case False
  with assms have
    d': "d' = d\<lparr>crm_leads := map (\<lambda>r. if c_user_id r = userID \<and> c_lead_id r = lid
                              then r\<lparr>c_column_id := col\<rparr> else r) (crm_leads d)\<rparr>"
    and r: "code resp = StatusOK"
    by (auto simp: updateCrmStateHandler_def JSON_def)
  show ?thesis using False r by (simp add: d')
qed

theorem updateCrmStateHandler_frame_witness:
  "c_column_id (crm_leads (fst (updateCrmStateHandler no_faults 1
       (Some \<lparr>LeadID = ''a'', NewColumnID = ''no such column''\<rparr>) crm_db)) ! 0) = ''no such column''
   \<and> c_notes (crm_leads (fst (updateCrmStateHandler no_faults 1
       (Some \<lparr>LeadID = ''a'', NewColumnID = ''no such column''\<rparr>) crm_db)) ! 0)
       = c_notes (crm_leads crm_db ! 0)
   \<and> crm_leads (fst (updateCrmStateHandler no_faults 1
       (Some \<lparr>LeadID = ''a'', NewColumnID = ''no such column''\<rparr>) crm_db)) ! 1 = crm_leads crm_db ! 1"
proof -
  obtain d' resp where h: "updateCrmStateHandler no_faults 1
       (Some \<lparr>LeadID = ''a'', NewColumnID = ''no such column''\<rparr>) crm_db = (d', resp)"
    by (cases "updateCrmStateHandler no_faults 1
       (Some \<lparr>LeadID = ''a'', NewColumnID = ''no such column''\<rparr>) crm_db")
  have nf: "\<not> no_faults OpExec" by (simp add: no_faults_def)
  from updateCrmStateHandler_frame [OF h] nf crm_db_rows have
    "c_column_id (crm_leads d' ! 0) = ''no such column''"
    "c_notes (crm_leads d' ! 0) = c_notes (crm_leads crm_db ! 0)"
    "crm_leads d' ! 1 = crm_leads crm_db ! 1"
    by (simp_all add: numeral_2_eq_2 All_less_Suc)
  then show ?thesis by (simp add: h)
qed

lemma job1_started_eq:
  "job1_started = \<lparr>searches = [\<lparr>s_id = ''job-1'', s_user_id = 1,
       s_keyword = ''plumbers in london'', s_status = ''In Progress'',
       s_leads_found = Some 0, s_created_at = Some 1\<rparr>], leads = [], crm_leads = []\<rparr>"
  by (simp add: job1_started_def startSearchHandler_def init_def no_faults_def JSON_def Let_def)

lemma query_owner_cases:
  "query_owner env searchID d = None \<or>
   (\<exists>r \<in> set (searches d). s_id r = searchID \<and> query_owner env searchID d = Some (s_user_id r))"
proof (cases "filter (\<lambda>r. s_id r = searchID) (searches d)")
  case Nil
  then show ?thesis by (simp add: query_owner_def)
next
  case (Cons r rs)
  then have "r \<in> set (filter (\<lambda>r. s_id r = searchID) (searches d))" by simp
  then have "r \<in> set (searches d)" "s_id r = searchID" by simp_all
  then show ?thesis using Cons by (auto simp: query_owner_def)
qed

lemma forbidden_unless_owner:
  assumes "\<forall>r \<in> set (searches d). s_id r = searchID \<longrightarrow> s_user_id r \<noteq> userID"
  shows "getLeadsForSearchHandler env userID searchID d =
         JSON StatusForbidden (H_error ''Access denied'')"
  using query_owner_cases [of env searchID d] assms
  by (auto simp: getLeadsForSearchHandler_def)

subsection \<open>Leads of a job are shown to its owner only\<close>

text \<open>
  C5. When the job with the requested id belongs to another user than the caller,
  \<open>getLeadsForSearchHandler\<close> answers 403 with the body \<open>{"error": "Access denied"}\<close>
  and nothing else, whatever the leads table holds and whether or not the store
  fails: no lead of the job is in the answer.
\<close>

theorem getLeads_other_owner_denied:
  assumes "distinct (map s_id (searches d))"
    and "r \<in> set (searches d)" and "s_id r = searchID" and "s_user_id r \<noteq> userID"
  shows "getLeadsForSearchHandler env userID searchID d =
         JSON StatusForbidden (H_error ''Access denied'')"
proof (rule forbidden_unless_owner, intro ballI impI)
  fix r' assume "r' \<in> set (searches d)" "s_id r' = searchID"
  with assms have "r' = r"
    by (metis distinct_map inj_on_eq_iff)
  with assms show "s_user_id r' \<noteq> userID" by simp
qed

theorem getLeads_other_owner_denied_witness:
  "getLeadsForSearchHandler no_faults 2 ''job-1'' job1_started =
     JSON StatusForbidden (H_error ''Access denied'')"
proof -
  have "distinct (map s_id (searches job1_started))" by (simp add: job1_started_eq)
  moreover have "hd (searches job1_started) \<in> set (searches job1_started)"
    by (simp add: job1_started_eq)
  moreover have "s_id (hd (searches job1_started)) = ''job-1''"
    by (simp add: job1_started_eq)
  moreover have "s_user_id (hd (searches job1_started)) \<noteq> 2"
    by (simp add: job1_started_eq)
  ultimately show ?thesis by (rule getLeads_other_owner_denied)
qed

text \<open>
  C10. When no job has the requested id, \<open>getLeadsForSearchHandler\<close> answers 403 with
  the body \<open>{"error": "Access denied"}\<close>: the very answer given for a job that exists
  and belongs to another user, so the two cases cannot be told apart, and there is no
  not-found answer.
\<close>

theorem getLeads_missing_job_denied:
  assumes "searchID \<notin> s_id ` set (searches d)"
  shows "getLeadsForSearchHandler env userID searchID d =
           JSON StatusForbidden (H_error ''Access denied'')
         \<and> (\<forall>env' d' r. distinct (map s_id (searches d')) \<and> r \<in> set (searches d') \<and>
               s_user_id r \<noteq> userID \<longrightarrow>
               getLeadsForSearchHandler env' userID (s_id r) d' =
               getLeadsForSearchHandler env userID searchID d)"
proof -
  have a: "getLeadsForSearchHandler env userID searchID d =
           JSON StatusForbidden (H_error ''Access denied'')"
    using assms by (intro forbidden_unless_owner) auto
  have "getLeadsForSearchHandler env' userID (s_id r) d' =
        JSON StatusForbidden (H_error ''Access denied'')"
    if "distinct (map s_id (searches d'))" "r \<in> set (searches d')" "s_user_id r \<noteq> userID"
    for env' d' r
  proof (rule forbidden_unless_owner, intro ballI impI)
    fix r' assume "r' \<in> set (searches d')" "s_id r' = s_id r"
    with that have "r' = r" by (metis distinct_map inj_on_eq_iff)
    with that show "s_user_id r' \<noteq> userID" by simp
  qed
  with a show ?thesis by simp
qed

theorem getLeads_missing_job_denied_witness:
  "getLeadsForSearchHandler no_faults 1 ''no-such-job'' job1_started =
     JSON StatusForbidden (H_error ''Access denied'')
   \<and> getLeadsForSearchHandler no_faults 2 ''job-1'' job1_started =
     getLeadsForSearchHandler no_faults 1 ''no-such-job'' job1_started"
proof -
  have h: "''no-such-job'' \<notin> s_id ` set (searches job1_started)"
    by (simp add: job1_started_eq)
  have r: "distinct (map s_id (searches job1_started)) \<and>
      hd (searches job1_started) \<in> set (searches job1_started) \<and>
      s_user_id (hd (searches job1_started)) \<noteq> 2"
    by (simp add: job1_started_eq)
  have i: "s_id (hd (searches job1_started)) = ''job-1''"
    by (simp add: job1_started_eq)
  note t = getLeads_missing_job_denied [OF h, of no_faults]
  from t [of 1] have a: "getLeadsForSearchHandler no_faults 1 ''no-such-job'' job1_started =
     JSON StatusForbidden (H_error ''Access denied'')" by simp
  have b: "getLeadsForSearchHandler no_faults 2 ''no-such-job'' job1_started =
     JSON StatusForbidden (H_error ''Access denied'')" using t [of 2] by simp
  from t [of 2] r have "getLeadsForSearchHandler no_faults 2 (s_id (hd (searches job1_started))) job1_started =
      getLeadsForSearchHandler no_faults 2 ''no-such-job'' job1_started"
    by blast
  with a b i show ?thesis by simp
qed

subsection \<open>Creating a job\<close>

text \<open>
  C3, as amended. For a request with a keyword that is present (not empty),
  \<open>startSearchHandler\<close> answers 202 exactly when the store accepts the INSERT and the
  generated identifier is not yet the id of a job. Then the identifier is fresh, one
  row is appended to the jobs with status \<open>In Progress\<close> (the code's name of the
  initial state; the code has no status \<open>Pending\<close>) and found-count 0, the body is the
  job record with that status and identifier, and the job is handed to the background
  task. Otherwise the store is unchanged and no task is started.
\<close>

theorem startSearchHandler_accepted:
  assumes "startSearchHandler env userID (Some keyword) searchID now dbnow d = (d', resp, spawned)"
    and "keyword \<noteq> []"
  shows "(code resp = StatusAccepted \<longleftrightarrow> \<not> env OpExec \<and> searchID \<notin> s_id ` set (searches d))
       \<and> (code resp = StatusAccepted \<longrightarrow>
            searchID \<notin> s_id ` set (searches d)
          \<and> d' = d\<lparr>searches := searches d @
                     [\<lparr>s_id = searchID, s_user_id = userID, s_keyword = keyword,
                       s_status = ''In Progress'', s_leads_found = Some 0,
                       s_created_at = Some dbnow\<rparr>]\<rparr>
          \<and> body resp = JSON_Search
                 \<lparr>Search_ID = searchID, Search_UserID = userID, Search_Keyword = keyword,
                  Search_Status = ''In Progress'', Search_LeadsFound = 0,
                  Search_CreatedAt = now\<rparr>
          \<and> spawned = [\<lparr>Search_ID = searchID, Search_UserID = userID, Search_Keyword = keyword,
                  Search_Status = ''In Progress'', Search_LeadsFound = 0,
                  Search_CreatedAt = now\<rparr>])
       \<and> (code resp \<noteq> StatusAccepted \<longrightarrow> d' = d \<and> spawned = [])"
  using assms
  by (auto simp: startSearchHandler_def JSON_def Let_def split: if_splits)

theorem startSearchHandler_accepted_witness:
  "code (fst (snd (startSearchHandler no_faults 1 (Some ''plumbers in london'') ''job-1'' 0 1 (store init))))
     = StatusAccepted
   \<and> body (fst (snd (startSearchHandler no_faults 1 (Some ''plumbers in london'') ''job-1'' 0 1 (store init))))
     = JSON_Search job1
   \<and> searches (fst (startSearchHandler no_faults 1 (Some ''plumbers in london'') ''job-1'' 0 1 (store init)))
     = [\<lparr>s_id = ''job-1'', s_user_id = 1, s_keyword = ''plumbers in london'',
         s_status = ''In Progress'', s_leads_found = Some 0, s_created_at = Some 1\<rparr>]"
proof -
  obtain d' resp spawned where
    h: "startSearchHandler no_faults 1 (Some ''plumbers in london'') ''job-1'' 0 1 (store init)
        = (d', resp, spawned)"
    by (cases "startSearchHandler no_faults 1 (Some ''plumbers in london'') ''job-1'' 0 1 (store init)")
  have k: "''plumbers in london'' \<noteq> []" by simp
  have f: "\<not> no_faults OpExec \<and> ''job-1'' \<notin> s_id ` set (searches (store init))"
    by (simp add: no_faults_def init_def)
  from startSearchHandler_accepted [OF h k] f have
    "code resp = StatusAccepted" "body resp = JSON_Search job1"
    "searches d' = [\<lparr>s_id = ''job-1'', s_user_id = 1, s_keyword = ''plumbers in london'',
         s_status = ''In Progress'', s_leads_found = Some 0, s_created_at = Some 1\<rparr>]"
    by (simp_all add: job1_def init_def)
  then show ?thesis by (simp add: h)
qed

text \<open>
  C3 as stated fails: the job created for the keyword \<open>plumbers in london\<close> is
  answered, and stored, with status \<open>In Progress\<close>, not \<open>Pending\<close>.
\<close>

theorem startSearchHandler_not_Pending:
  "fst (snd (startSearchHandler no_faults 1 (Some ''plumbers in london'') ''job-1'' 0 1 (store init)))
     = JSON StatusAccepted (JSON_Search job1)
   \<and> Search_Status job1 \<noteq> ''Pending''
   \<and> s_status (last (searches (fst
        (startSearchHandler no_faults 1 (Some ''plumbers in london'') ''job-1'' 0 1 (store init)))))
     \<noteq> ''Pending''"
  by (simp add: startSearchHandler_def no_faults_def init_def JSON_def Let_def job1_def)

subsection \<open>What the CRM board shows for a lead\<close>

lemma crm_loop_lookup:
  "fst (crm_loop rows m cols) k =
     (case filter (\<lambda>r. c_lead_id r = k) rows of
        [] \<Rightarrow> m k
      | r # rs \<Rightarrow> Some (scan_crm (last (r # rs))))"
proof (induction rows arbitrary: m cols)
  case Nil
  then show ?case by simp
next
  case (Cons r rows)
  have id: "CrmLead_ID (scan_crm r) = c_lead_id r" by (simp add: scan_crm_def)
  show ?case
  proof (cases "c_lead_id r = k")
    case True
    then show ?thesis
      by (simp add: Let_def id Cons.IH split: list.splits)
  next
    case False
    then show ?thesis
      by (simp add: Let_def id Cons.IH split: list.splits)
  qed
qed

lemma set_index_insert: "set (index_insert r xs) = insert r (set xs)"
  by (induction xs) auto

lemma set_index_order: "set (index_order xs) = set xs"
  by (induction xs) (simp_all add: set_index_insert)

lemma getCrmHandler_board:
  assumes "\<not> env OpQuery" and "\<not> env OpRowsErr"
  shows "\<exists>board. getCrmHandler env userID d = JSON StatusOK (JSON_Crm board) \<and>
           (\<forall>k. board_leads board k =
              (case filter (\<lambda>r. c_lead_id r = k)
                      (index_order (filter (\<lambda>r. c_user_id r = userID) (crm_leads d))) of
                 [] \<Rightarrow> None
               | r # rs \<Rightarrow> Some (scan_crm (last (r # rs)))))"
proof -
  let ?rows = "index_order (filter (\<lambda>r. c_user_id r = userID) (crm_leads d))"
  obtain m cols where
    l: "crm_loop ?rows Map.empty [''tobe-called'' \<mapsto> [], ''contacted'' \<mapsto> []] = (m, cols)"
    by (cases "crm_loop ?rows Map.empty [''tobe-called'' \<mapsto> [], ''contacted'' \<mapsto> []]")
  have "m k = (case filter (\<lambda>r. c_lead_id r = k) ?rows of
                 [] \<Rightarrow> None
               | r # rs \<Rightarrow> Some (scan_crm (last (r # rs))))" for k
    using crm_loop_lookup [of ?rows Map.empty
        "[''tobe-called'' \<mapsto> [], ''contacted'' \<mapsto> []]" k]
    by (simp only: l fst_conv)
  then have "\<forall>k. board_leads \<lparr>board_leads = m,
                 board_tobe_called = column_ids cols ''tobe-called'',
                 board_contacted = column_ids cols ''contacted''\<rparr> k =
              (case filter (\<lambda>r. c_lead_id r = k) ?rows of
                 [] \<Rightarrow> None
               | r # rs \<Rightarrow> Some (scan_crm (last (r # rs))))"
    by simp
  moreover have "getCrmHandler env userID d = JSON StatusOK (JSON_Crm
      \<lparr>board_leads = m, board_tobe_called = column_ids cols ''tobe-called'',
       board_contacted = column_ids cols ''contacted''\<rparr>)"
    using assms by (simp add: getCrmHandler_def l)
  ultimately show ?thesis by blast
qed

text \<open>
  C7. When the caller has an entry for the lead and \<open>updateCrmLeadHandler\<close> answers
  200 for a payload, the next \<open>getCrmHandler\<close> of the same user (with the store
  answering its query) returns a board whose entry for that lead id carries the
  payload's notes, call count and callback date.
\<close>

theorem crm_update_then_fetch:
  assumes "updateCrmLeadHandler env userID leadID (Some p) d = (d', resp)"
    and "code resp = StatusOK"
    and "crm_key_present userID leadID (crm_leads d)"
    and "\<not> env' OpQuery" and "\<not> env' OpRowsErr"
  shows "\<exists>board cl. getCrmHandler env' userID d' = JSON StatusOK (JSON_Crm board) \<and>
           board_leads board leadID = Some cl \<and>
           CrmLead_ID cl = leadID \<and>
           CrmLead_Notes cl = CrmLead_Notes p \<and>
           CrmLead_TimesCalled cl = CrmLead_TimesCalled p \<and>
           CrmLead_CallBackDate cl = CrmLead_CallBackDate p"
proof -
  let ?upd = "\<lambda>r. if c_user_id r = userID \<and> c_lead_id r = leadID
                   then r\<lparr>c_notes := Some (CrmLead_Notes p),
                          c_times_called := Some (CrmLead_TimesCalled p),
                          c_callback_date := CrmLead_CallBackDate p\<rparr>
                   else r"
  let ?rows = "index_order (filter (\<lambda>r. c_user_id r = userID) (crm_leads d'))"
  let ?hits = "filter (\<lambda>r. c_lead_id r = leadID) ?rows"
  from assms(1,2) have d': "crm_leads d' = map ?upd (crm_leads d)"
    by (auto simp: updateCrmLeadHandler_def JSON_def split: if_splits)
  have key: "c_user_id (?upd r) = c_user_id r" "c_lead_id (?upd r) = c_lead_id r" for r
    by simp_all
  have hits: "x \<in> set ?hits \<longleftrightarrow>
      x \<in> set (crm_leads d') \<and> c_user_id x = userID \<and> c_lead_id x = leadID" for x
    by (auto simp: set_index_order)
  from assms(3) obtain r0 where r0: "r0 \<in> set (crm_leads d)" "c_user_id r0 = userID"
    "c_lead_id r0 = leadID"
    by (auto simp: crm_key_present_def)
  from r0(1) have "?upd r0 \<in> ?upd ` set (crm_leads d)" by (rule imageI)
  then have "?upd r0 \<in> set (crm_leads d')" by (simp only: d' set_map)
  with r0(2,3) have "?upd r0 \<in> set ?hits" by (simp only: hits key) simp
  then obtain h hs where hh: "?hits = h # hs" by (cases ?hits) auto
  have "last (h # hs) \<in> set ?hits" unfolding hh by (rule last_in_set) simp
  then have lst: "last (h # hs) \<in> set (crm_leads d')" "c_user_id (last (h # hs)) = userID"
    "c_lead_id (last (h # hs)) = leadID"
    by (simp_all only: hits)
  from lst(1) obtain r where r1: "r \<in> set (crm_leads d)" and r4: "last (h # hs) = ?upd r"
    unfolding d' set_map by (rule imageE)
  from lst(2,3) have "c_user_id r = userID" "c_lead_id r = leadID"
    unfolding r4 by (simp_all split: if_splits)
  with r1 r4 have r: "r \<in> set (crm_leads d)" "c_user_id r = userID"
    "c_lead_id r = leadID" "last (h # hs) = ?upd r"
    by simp_all
  from getCrmHandler_board [OF assms(4,5), of userID d'] obtain board where
    b: "getCrmHandler env' userID d' = JSON StatusOK (JSON_Crm board)"
    and look: "board_leads board leadID =
       (case ?hits of [] \<Rightarrow> None | r # rs \<Rightarrow> Some (scan_crm (last (r # rs))))"
    by blast
  from look have "board_leads board leadID = Some (scan_crm (last (h # hs)))"
    by (simp only: hh list.case)
  then have "board_leads board leadID = Some (scan_crm (?upd r))"
    by (simp only: r(4))
  moreover have "CrmLead_ID (scan_crm (?upd r)) = leadID"
    "CrmLead_Notes (scan_crm (?upd r)) = CrmLead_Notes p"
    "CrmLead_TimesCalled (scan_crm (?upd r)) = CrmLead_TimesCalled p"
    "CrmLead_CallBackDate (scan_crm (?upd r)) = CrmLead_CallBackDate p"
    using r(2,3) by (simp_all add: scan_crm_def NullString_def NullInt64_def)
  ultimately show ?thesis using b by blast
qed

lemma crm_db_present: "crm_key_present 1 ''a'' (crm_leads crm_db)"
  by (simp add: crm_db_def insert_or_ignore_def crm_key_present_def crm_lead_a_def)

theorem crm_update_then_fetch_witness:
  "\<exists>board cl.
     getCrmHandler no_faults 1 (fst (updateCrmLeadHandler no_faults 1 ''a'' (Some crm_edit) crm_db))
       = JSON StatusOK (JSON_Crm board) \<and>
     board_leads board ''a'' = Some cl \<and>
     CrmLead_Notes cl = ''call back'' \<and> CrmLead_TimesCalled cl = 3 \<and>
     CrmLead_CallBackDate cl = Some 1700000000"
proof -
  obtain d' resp where
    h: "updateCrmLeadHandler no_faults 1 ''a'' (Some crm_edit) crm_db = (d', resp)"
    by (cases "updateCrmLeadHandler no_faults 1 ''a'' (Some crm_edit) crm_db")
  then have c: "code resp = StatusOK"
    by (auto simp: updateCrmLeadHandler_def no_faults_def JSON_def)
  have q: "\<not> no_faults OpQuery" "\<not> no_faults OpRowsErr" by (simp_all add: no_faults_def)
  have e: "CrmLead_Notes crm_edit = ''call back''" "CrmLead_TimesCalled crm_edit = 3"
    "CrmLead_CallBackDate crm_edit = Some 1700000000"
    by (simp_all add: crm_edit_def)
  from crm_update_then_fetch [OF h c crm_db_present q] show ?thesis
    by (simp only: h fst_conv e) blast
qed

subsection \<open>Adding leads to the CRM\<close>

lemma crm_key_present_append:
  "crm_key_present u k (a @ b) \<longleftrightarrow> crm_key_present u k a \<or> crm_key_present u k b"
  by (auto simp: crm_key_present_def)

lemma insert_or_ignore_cases:
  "(insert_or_ignore u l tbl = tbl \<and> crm_key_present u (Lead_ID l) tbl) \<or>
   (\<exists>row. insert_or_ignore u l tbl = tbl @ [row] \<and> c_user_id row = u \<and>
      c_lead_id row = Lead_ID l \<and> \<not> crm_key_present u (Lead_ID l) tbl)"
  by (simp add: insert_or_ignore_def)

lemma add_loop_extends:
  "add_loop env u i ls tbl = Some tbl' \<Longrightarrow>
     \<exists>new. tbl' = tbl @ new \<and>
       (\<forall>r \<in> set new. c_user_id r = u \<and> c_lead_id r \<in> Lead_ID ` set ls \<and>
          \<not> crm_key_present u (c_lead_id r) tbl) \<and>
       (\<forall>l \<in> set ls. crm_key_present u (Lead_ID l) tbl')"
proof (induction ls arbitrary: i tbl)
  case Nil
  then show ?case by simp
next
  case (Cons l ls)
  from Cons.prems have nf: "\<not> env (OpInsert i)"
    and rec: "add_loop env u (Suc i) ls (insert_or_ignore u l tbl) = Some tbl'"
    by (auto split: if_splits)
  from Cons.IH [OF rec] obtain new where
    n1: "tbl' = insert_or_ignore u l tbl @ new"
    and n2: "\<forall>r \<in> set new. c_user_id r = u \<and> c_lead_id r \<in> Lead_ID ` set ls \<and>
          \<not> crm_key_present u (c_lead_id r) (insert_or_ignore u l tbl)"
    and n3: "\<forall>l \<in> set ls. crm_key_present u (Lead_ID l) tbl'"
    by blast
  from insert_or_ignore_cases [of u l tbl] show ?case
  proof (elim disjE conjE exE)
    assume a: "insert_or_ignore u l tbl = tbl" "crm_key_present u (Lead_ID l) tbl"
    have "tbl' = tbl @ new" using n1 a by simp
    moreover have "\<forall>r \<in> set new. c_user_id r = u \<and> c_lead_id r \<in> Lead_ID ` set (l # ls) \<and>
          \<not> crm_key_present u (c_lead_id r) tbl"
      using n2 a by auto
    moreover have "\<forall>x \<in> set (l # ls). crm_key_present u (Lead_ID x) tbl'"
      using n3 a n1 by (auto simp: crm_key_present_append)
    ultimately show ?thesis by blast
  next
    fix row
    assume a: "insert_or_ignore u l tbl = tbl @ [row]" "c_user_id row = u"
      "c_lead_id row = Lead_ID l" "\<not> crm_key_present u (Lead_ID l) tbl"
    have "tbl' = tbl @ (row # new)" using n1 a by simp
    moreover have "\<forall>r \<in> set (row # new). c_user_id r = u \<and>
          c_lead_id r \<in> Lead_ID ` set (l # ls) \<and> \<not> crm_key_present u (c_lead_id r) tbl"
      using n2 a by (auto simp: crm_key_present_append)
    moreover have "crm_key_present u (Lead_ID l) (tbl @ [row] @ new)"
      using a by (simp add: crm_key_present_def)
    then have "\<forall>x \<in> set (l # ls). crm_key_present u (Lead_ID x) tbl'"
      using n3 a(1) n1 by simp
    ultimately show ?thesis by blast
  qed
qed

lemma add_loop_present:
  assumes "\<forall>l \<in> set ls. crm_key_present u (Lead_ID l) tbl"
    and "add_loop env u i ls tbl = Some tbl'"
  shows "tbl' = tbl"
proof -
  from add_loop_extends [OF assms(2)] obtain new where
    n: "tbl' = tbl @ new"
    "\<forall>r \<in> set new. c_user_id r = u \<and> c_lead_id r \<in> Lead_ID ` set ls \<and>
          \<not> crm_key_present u (c_lead_id r) tbl"
    by blast
  have "new = []"
  proof (cases new)
    case Nil
    then show ?thesis .
  next
    case (Cons r rs)
    with n(2) have "c_lead_id r \<in> Lead_ID ` set ls" "\<not> crm_key_present u (c_lead_id r) tbl"
      by simp_all
    with assms(1) show ?thesis by auto
  qed
  with n(1) show ?thesis by simp
qed

lemma add_loop_total:
  "(\<forall>i. \<not> env (OpInsert i)) \<Longrightarrow> \<exists>tbl'. add_loop env u i ls tbl = Some tbl'"
  by (induction ls arbitrary: i tbl) simp_all

lemma addLeadsToCrmHandler_cases:
  assumes "addLeadsToCrmHandler env userID (Some ls) d = (d', resp)"
  shows "d' = d \<or> (\<exists>tbl. add_loop env userID 0 ls (crm_leads d) = Some tbl \<and>
           d' = d\<lparr>crm_leads := tbl\<rparr>)"
  using assms
  by (auto simp: addLeadsToCrmHandler_def split: if_splits option.splits)

lemma addLeadsToCrmHandler_ok:
  assumes "\<not> env OpBegin" "\<not> env OpPrepare" "\<forall>i. \<not> env (OpInsert i)" "\<not> env OpCommit"
  shows "\<exists>tbl. add_loop env userID 0 ls (crm_leads d) = Some tbl \<and>
           fst (addLeadsToCrmHandler env userID (Some ls) d) = d\<lparr>crm_leads := tbl\<rparr>"
proof -
  from add_loop_total [OF assms(3)] obtain tbl where
    "add_loop env userID 0 ls (crm_leads d) = Some tbl" by blast
  with assms show ?thesis by (simp add: addLeadsToCrmHandler_def)
qed

text \<open>
  C6. \<open>addLeadsToCrmHandler\<close> never changes an existing CRM row: the old table is a
  prefix of the new one, every added row belongs to the caller and to a lead the
  caller had no entry for, so for a lead the caller already holds the entries are
  exactly the old ones (column, notes, call count, callback date and snapshot fields),
  whatever the request says about that lead. Adding only leads that are already
  there leaves the whole store unchanged, and after an add that the store carried out
  the same add again is such a no-op.
\<close>

theorem addLeadsToCrm_first_add_wins:
  assumes "addLeadsToCrmHandler env userID (Some ls) d = (d', resp)"
  shows "searches d' = searches d \<and> leads d' = leads d
     \<and> take (length (crm_leads d)) (crm_leads d') = crm_leads d
     \<and> (\<forall>r \<in> set (drop (length (crm_leads d)) (crm_leads d')).
           c_user_id r = userID \<and> \<not> crm_key_present userID (c_lead_id r) (crm_leads d))
     \<and> (\<forall>k. crm_key_present userID k (crm_leads d) \<longrightarrow>
           filter (\<lambda>r. c_user_id r = userID \<and> c_lead_id r = k) (crm_leads d') =
           filter (\<lambda>r. c_user_id r = userID \<and> c_lead_id r = k) (crm_leads d))
     \<and> ((\<forall>l \<in> set ls. crm_key_present userID (Lead_ID l) (crm_leads d)) \<longrightarrow> d' = d)
     \<and> (\<not> env OpBegin \<and> \<not> env OpPrepare \<and> (\<forall>i. \<not> env (OpInsert i)) \<and> \<not> env OpCommit \<longrightarrow>
          (\<forall>env2. fst (addLeadsToCrmHandler env2 userID (Some ls) d') = d'))"
proof -
  have ext: "\<exists>new. crm_leads d' = crm_leads d @ new \<and>
       (\<forall>r \<in> set new. c_user_id r = userID \<and>
          \<not> crm_key_present userID (c_lead_id r) (crm_leads d))"
    and rest: "searches d' = searches d" "leads d' = leads d"
    using addLeadsToCrmHandler_cases [OF assms] add_loop_extends [of env userID 0 ls "crm_leads d"]
    by (auto; blast)+
  then obtain new where
    n: "crm_leads d' = crm_leads d @ new"
    "\<forall>r \<in> set new. c_user_id r = userID \<and>
          \<not> crm_key_present userID (c_lead_id r) (crm_leads d)"
    by blast
  have filt: "filter (\<lambda>r. c_user_id r = userID \<and> c_lead_id r = k) (crm_leads d') =
           filter (\<lambda>r. c_user_id r = userID \<and> c_lead_id r = k) (crm_leads d)"
    if "crm_key_present userID k (crm_leads d)" for k
  proof -
    have "filter (\<lambda>r. c_user_id r = userID \<and> c_lead_id r = k) new = []"
      using n(2) that by (auto simp: filter_empty_conv)
    then show ?thesis by (simp add: n(1))
  qed
  have same: "d' = d" if "\<forall>l \<in> set ls. crm_key_present userID (Lead_ID l) (crm_leads d)"
    using addLeadsToCrmHandler_cases [OF assms] add_loop_present [OF that, of env 0]
    by auto
  have again: "fst (addLeadsToCrmHandler env2 userID (Some ls) d') = d'"
    if ok: "\<not> env OpBegin \<and> \<not> env OpPrepare \<and> (\<forall>i. \<not> env (OpInsert i)) \<and> \<not> env OpCommit"
    for env2
  proof -
    from addLeadsToCrmHandler_ok [of env userID ls d] ok assms obtain tbl where
      t: "add_loop env userID 0 ls (crm_leads d) = Some tbl" "d' = d\<lparr>crm_leads := tbl\<rparr>"
      by auto
    from add_loop_extends [OF t(1)] have
      p: "\<forall>l \<in> set ls. crm_key_present userID (Lead_ID l) (crm_leads d')"
      using t(2) by auto
    obtain d'' resp'' where
      h2: "addLeadsToCrmHandler env2 userID (Some ls) d' = (d'', resp'')"
      by (cases "addLeadsToCrmHandler env2 userID (Some ls) d'")
    from addLeadsToCrmHandler_cases [OF h2] add_loop_present [OF p, of env2 0]
    have "d'' = d'" by auto
    with h2 show ?thesis by simp
  qed
  from rest n filt same again show ?thesis by auto
qed

lemma crm_db_edited_present: "crm_key_present 1 ''a'' (crm_leads crm_db_edited)"
  by (simp add: crm_db_edited_def updateCrmLeadHandler_def no_faults_def crm_db_def
      insert_or_ignore_def crm_key_present_def crm_lead_a_def)

theorem addLeadsToCrm_first_add_wins_witness:
  "fst (addLeadsToCrmHandler no_faults 1 (Some [crm_lead_a_again]) crm_db_edited) = crm_db_edited
   \<and> c_notes (hd (crm_leads (fst
        (addLeadsToCrmHandler no_faults 1 (Some [crm_lead_a_again]) crm_db_edited))))
     = Some ''call back''
   \<and> c_company_name (hd (crm_leads (fst
        (addLeadsToCrmHandler no_faults 1 (Some [crm_lead_a_again]) crm_db_edited))))
     = Some ''Acme''"
proof -
  obtain d' resp where
    h: "addLeadsToCrmHandler no_faults 1 (Some [crm_lead_a_again]) crm_db_edited = (d', resp)"
    by (cases "addLeadsToCrmHandler no_faults 1 (Some [crm_lead_a_again]) crm_db_edited")
  have p: "\<forall>l \<in> set [crm_lead_a_again]. crm_key_present 1 (Lead_ID l) (crm_leads crm_db_edited)"
    using crm_db_edited_present by (simp add: crm_lead_a_again_def)
  from addLeadsToCrm_first_add_wins [OF h] p have e: "d' = crm_db_edited" by blast
  have "c_notes (hd (crm_leads crm_db_edited)) = Some ''call back''"
    "c_company_name (hd (crm_leads crm_db_edited)) = Some ''Acme''"
    by (simp_all add: crm_db_edited_def updateCrmLeadHandler_def no_faults_def crm_db_def
      insert_or_ignore_def crm_key_present_def crm_lead_a_def crm_edit_def)
  with e show ?thesis by (simp add: h)
qed

subsection \<open>Outcomes of an import\<close>

lemma job_inv_cong:
  "leads d' = leads d \<Longrightarrow> job_inv d' r = job_inv d r"
  by (simp add: job_inv_def count_leads_def)

lemma updateSearchStatus_frame:
  "leads (updateSearchStatus env sid st d) = leads d"
  "crm_leads (updateSearchStatus env sid st d) = crm_leads d"
  "map s_id (searches (updateSearchStatus env sid st d)) = map s_id (searches d)"
  by (simp_all add: updateSearchStatus_def comp_def)

lemma insert_leads_extends:
  "insert_leads env uuid now sid i sls tbl = Some tbl' \<Longrightarrow>
     \<exists>new. tbl' = tbl @ new \<and> length new = length sls \<and>
       (\<forall>l \<in> set new. l_search_id l = sid)"
proof (induction sls arbitrary: i tbl)
  case Nil
  then show ?case by simp
next
  case (Cons sl sls)
  let ?row = "\<lparr>l_id = uuid i, l_search_id = sid,
                l_company_name = Some (Title sl), l_phone = Some (Phone sl),
                l_website = Some (Website sl), l_email = Some (first_email sl),
                l_page_speed = None, l_scraped_at = Some now\<rparr>"
  from Cons.prems have "insert_leads env uuid now sid (Suc i) sls (tbl @ [?row]) = Some tbl'"
    by (simp add: Let_def split: if_splits)
  from Cons.IH [OF this] obtain new where
    "tbl' = (tbl @ [?row]) @ new" "length new = length sls" "\<forall>l \<in> set new. l_search_id l = sid"
    by blast
  then have "tbl' = tbl @ (?row # new) \<and> length (?row # new) = length (sl # sls) \<and>
     (\<forall>l \<in> set (?row # new). l_search_id l = sid)"
    by simp
  then show ?case by blast
qed

lemma processScraperOutput_cases:
  "processScraperOutput env uuid now files sid out d = d \<or>
   processScraperOutput env uuid now files sid out d = updateSearchStatus env sid ''Failed'' d \<or>
   (\<exists>new. processScraperOutput env uuid now files sid out d = completed sid (length new) new d \<and>
      (\<forall>l \<in> set new. l_search_id l = sid))"
proof (cases "files out")
  case None
  then show ?thesis by (simp add: processScraperOutput_def)
next
  case (Some content)
  show ?thesis
  proof (cases "decode_all content []")
    case None
    with Some show ?thesis by (simp add: processScraperOutput_def)
  next
    case sls: (Some scrapedLeads)
    show ?thesis
    proof (cases "insert_leads env uuid now sid 0 scrapedLeads (leads d)")
      case None
      with Some sls show ?thesis by (simp add: processScraperOutput_def)
    next
      case tbl: (Some tbl)
      from insert_leads_extends [OF tbl] obtain new where
        n: "tbl = leads d @ new" "length new = length scrapedLeads"
        "\<forall>l \<in> set new. l_search_id l = sid"
        by blast
      have "processScraperOutput env uuid now files sid out d = d \<or>
        processScraperOutput env uuid now files sid out d = updateSearchStatus env sid ''Failed'' d \<or>
        processScraperOutput env uuid now files sid out d = completed sid (length new) new d"
        using Some sls tbl n(1,2) by (simp add: processScraperOutput_def completed_def)
      with n(3) show ?thesis by blast
    qed
  qed
qed

lemma runScraper_cases:
  "runScraper os env uuid now j d = d \<or>
   runScraper os env uuid now j d = updateSearchStatus env (Search_ID j) ''Failed'' d \<or>
   (\<exists>new. runScraper os env uuid now j d = completed (Search_ID j) (length new) new d \<and>
      (\<forall>l \<in> set new. l_search_id l = Search_ID j))"
proof (cases "CreateFails os \<or> WriteFails os \<or> CmdFails os")
  case True
  then show ?thesis by (auto simp: runScraper_def Let_def)
next
  case False
  then show ?thesis
    using processScraperOutput_cases
    by (simp add: runScraper_def Let_def)
qed

subsection \<open>The consistency of jobs and leads is kept by every event\<close>

lemma count_leads_completed:
  assumes "\<forall>l \<in> set new. l_search_id l = sid"
  shows "count_leads k (completed sid n new d) =
         (if k = sid then count_leads sid d + length new else count_leads k d)"
proof -
  have "filter (\<lambda>l. l_search_id l = k) new = (if k = sid then new else [])"
    using assms by (auto simp: filter_empty_conv filter_id_conv)
  then show ?thesis by (simp add: count_leads_def completed_def)
qed

lemma count_zero_found:
  assumes "job_inv d r" and "count_leads (s_id r) d = 0"
  shows "s_leads_found r = Some 0"
  using assms by (auto simp: job_inv_def)

lemma db_inv_failed:
  assumes "db_inv d" and "count_leads sid d = 0"
  shows "db_inv (updateSearchStatus env sid ''Failed'' d)"
proof (cases "env OpStatus")
  case True
  with assms show ?thesis by (simp add: updateSearchStatus_def)
next
  case False
  let ?d' = "updateSearchStatus env sid ''Failed'' d"
  have s': "searches ?d' =
      map (\<lambda>r. if s_id r = sid then r\<lparr>s_status := ''Failed''\<rparr> else r) (searches d)"
    and l': "leads ?d' = leads d"
    using False by (simp_all add: updateSearchStatus_def)
  have "job_inv ?d' r'" if "r' \<in> set (searches ?d')" for r'
  proof -
    from that obtain r where r: "r \<in> set (searches d)"
      "r' = (if s_id r = sid then r\<lparr>s_status := ''Failed''\<rparr> else r)"
      unfolding s' by auto
    from assms(1) r(1) have j: "job_inv d r" by (simp add: db_inv_def)
    show ?thesis
    proof (cases "s_id r = sid")
      case True
      with j assms(2) have "s_leads_found r = Some 0" by (simp add: count_zero_found)
      with True r(2) assms(2) have "job_inv d r'" by (simp add: job_inv_def)
      then show ?thesis by (simp add: job_inv_cong [OF l'])
    next
      case False
      with r(2) j show ?thesis by (simp add: job_inv_cong [OF l'])
    qed
  qed
  moreover have "\<forall>l \<in> set (leads ?d'). l_search_id l \<in> s_id ` set (searches ?d')"
  proof -
    have "s_id ` set (searches ?d') = s_id ` set (searches d)"
      using updateSearchStatus_frame(3) [of env sid "''Failed''" d]
      by (metis list.set_map)
    with assms(1) l' show ?thesis by (simp add: db_inv_def)
  qed
  ultimately show ?thesis by (simp add: db_inv_def)
qed

lemma db_inv_completed:
  assumes "db_inv d" and "count_leads sid d = 0" and "sid \<in> s_id ` set (searches d)"
    and new: "\<forall>l \<in> set new. l_search_id l = sid"
  shows "db_inv (completed sid (length new) new d)"
proof -
  let ?d' = "completed sid (length new) new d"
  let ?f = "\<lambda>r. if s_id r = sid
                then r\<lparr>s_status := ''Completed'', s_leads_found := Some (int (length new))\<rparr>
                else r"
  have s': "searches ?d' = map ?f (searches d)" and l': "leads ?d' = leads d @ new"
    by (simp_all add: completed_def)
  have "job_inv ?d' r'" if "r' \<in> set (searches ?d')" for r'
  proof -
    from that obtain r where r: "r \<in> set (searches d)" "r' = ?f r"
      unfolding s' by auto
    from assms(1) r(1) have j: "job_inv d r" by (simp add: db_inv_def)
    show ?thesis
    proof (cases "s_id r = sid")
      case True
      with r(2) assms(2) show ?thesis
        by (simp add: job_inv_def count_leads_completed [OF new])
    next
      case False
      with r(2) j show ?thesis
        by (simp add: job_inv_def count_leads_completed [OF new])
    qed
  qed
  moreover have "\<forall>l \<in> set (leads ?d'). l_search_id l \<in> s_id ` set (searches ?d')"
  proof -
    have "map s_id (searches ?d') = map s_id (searches d)"
      unfolding s' by (simp add: comp_def)
    then have "s_id ` set (searches ?d') = s_id ` set (searches d)"
      by (metis list.set_map)
    with assms(1,3) new l' show ?thesis by (auto simp: db_inv_def)
  qed
  ultimately show ?thesis by (simp add: db_inv_def)
qed

lemma other_rows_kept:
  assumes "r \<in> set (searches d)" and "s_id r \<noteq> sid"
  shows "r \<in> set (searches (updateSearchStatus env sid st d))"
    and "r \<in> set (searches (completed sid n new d))"
  using assms by (auto simp: updateSearchStatus_def completed_def intro!: image_eqI [where x = r])

lemma drop_task:
  assumes "distinct (map f xs)" and "i < length xs"
  shows "distinct (map f (take i xs @ drop (Suc i) xs))"
    and "\<forall>y \<in> set (take i xs @ drop (Suc i) xs). y \<in> set xs \<and> f y \<noteq> f (xs ! i)"
proof -
  from assms(2) have xs: "xs = take i xs @ xs ! i # drop (Suc i) xs"
    by (rule id_take_nth_drop)
  from assms(1) have d: "distinct (map f (take i xs @ xs ! i # drop (Suc i) xs))"
    using xs by simp
  from d show "distinct (map f (take i xs @ drop (Suc i) xs))" by auto
  from d have "f (xs ! i) \<notin> f ` set (take i xs @ drop (Suc i) xs)" by auto
  then have "\<forall>y \<in> set (take i xs @ drop (Suc i) xs). f y \<noteq> f (xs ! i)"
    by (metis image_eqI)
  moreover have "\<forall>y \<in> set (take i xs @ drop (Suc i) xs). y \<in> set xs"
    by (auto dest: in_set_takeD in_set_dropD)
  ultimately show "\<forall>y \<in> set (take i xs @ drop (Suc i) xs). y \<in> set xs \<and> f y \<noteq> f (xs ! i)"
    by blast
qed

lemma db_inv_cong:
  "searches d' = searches d \<Longrightarrow> leads d' = leads d \<Longrightarrow> db_inv d' = db_inv d"
  by (simp add: db_inv_def job_inv_def count_leads_def)

lemma crm_handlers_frame:
  "searches (fst (addLeadsToCrmHandler env u inp1 d)) = searches d"
  "leads (fst (addLeadsToCrmHandler env u inp1 d)) = leads d"
  "searches (fst (updateCrmStateHandler env u inp2 d)) = searches d"
  "leads (fst (updateCrmStateHandler env u inp2 d)) = leads d"
  "searches (fst (updateCrmLeadHandler env u lid inp3 d)) = searches d"
  "leads (fst (updateCrmLeadHandler env u lid inp3 d)) = leads d"
  by (auto simp: addLeadsToCrmHandler_def updateCrmStateHandler_def updateCrmLeadHandler_def
      split: option.splits)

lemma startSearchHandler_cases:
  assumes "startSearchHandler env u input sid now dbnow d = (d', resp, spawned)"
  shows "(d' = d \<and> spawned = []) \<or>
         (sid \<notin> s_id ` set (searches d) \<and>
          (\<exists>row job. d' = d\<lparr>searches := searches d @ [row]\<rparr> \<and> s_id row = sid \<and>
             s_status row = ''In Progress'' \<and> s_leads_found row = Some 0 \<and>
             spawned = [job] \<and> Search_ID job = sid))"
  using assms
  by (auto simp: startSearchHandler_def Let_def split: option.splits if_splits)

lemma in_progress_count:
  assumes "db_inv d" and "r \<in> set (searches d)" and "s_status r = ''In Progress''"
  shows "count_leads (s_id r) d = 0"
  using assms by (auto simp: db_inv_def job_inv_def)

lemma sys_inv_start:
  assumes "sys_inv s"
  shows "sys_inv (step (StartSearch env u input sid now dbnow) s)"
proof -
  obtain d' resp spawned where
    h: "startSearchHandler env u input sid now dbnow (store s) = (d', resp, spawned)"
    by (cases "startSearchHandler env u input sid now dbnow (store s)")
  then have st: "step (StartSearch env u input sid now dbnow) s =
      \<lparr>store = d', tasks = tasks s @ spawned\<rparr>"
    by simp
  from startSearchHandler_cases [OF h] show ?thesis
  proof (elim disjE conjE exE)
    assume "d' = store s" "spawned = []"
    with assms show ?thesis unfolding st by (simp add: sys_inv_def)
  next
    fix row job
    assume fresh: "sid \<notin> s_id ` set (searches (store s))"
      and d': "d' = (store s)\<lparr>searches := searches (store s) @ [row]\<rparr>"
      and row: "s_id row = sid" "s_status row = ''In Progress''" "s_leads_found row = Some 0"
      and sp: "spawned = [job]" "Search_ID job = sid"
    from assms have inv: "db_inv (store s)" by (simp add: sys_inv_def)
    have l': "leads d' = leads (store s)" by (simp add: d')
    have "filter (\<lambda>l. l_search_id l = sid) (leads (store s)) = []"
      using inv fresh by (auto simp: db_inv_def filter_empty_conv)
    then have c0: "count_leads sid d' = 0" by (simp add: count_leads_def l')
    have "job_inv d' r" if "r \<in> set (searches d')" for r
    proof (cases "r = row")
      case True
      with row c0 show ?thesis by (simp add: job_inv_def)
    next
      case False
      with that have "r \<in> set (searches (store s))" by (simp add: d')
      with inv have "job_inv (store s) r" by (simp add: db_inv_def)
      then show ?thesis by (simp add: job_inv_cong [OF l'])
    qed
    moreover have "\<forall>l \<in> set (leads d'). l_search_id l \<in> s_id ` set (searches d')"
      using inv by (auto simp: db_inv_def d')
    ultimately have a: "db_inv d'" by (simp add: db_inv_def)
    have ids: "Search_ID j \<in> s_id ` set (searches (store s))" if "j \<in> set (tasks s)" for j
    proof -
      from assms that obtain r where "r \<in> set (searches (store s))" "s_id r = Search_ID j"
        by (auto simp: sys_inv_def)
      then show ?thesis by (metis image_eqI)
    qed
    have b: "distinct (map Search_ID (tasks s @ spawned))"
      using assms fresh ids sp by (auto simp: sys_inv_def)
    have c: "\<forall>j \<in> set (tasks s @ spawned). \<exists>r \<in> set (searches d').
         s_id r = Search_ID j \<and> s_status r = ''In Progress''"
      using assms sp row by (auto simp: sys_inv_def d')
    from a b c show ?thesis unfolding st by (simp add: sys_inv_def)
  qed
qed

lemma sys_inv_run:
  assumes "sys_inv s"
  shows "sys_inv (step (RunScraper os env uuid now i) s)"
proof (cases "i < length (tasks s)")
  case False
  with assms show ?thesis by simp
next
  case True
  let ?j = "tasks s ! i"
  let ?sid = "Search_ID ?j"
  let ?d = "store s"
  let ?d' = "runScraper os env uuid now ?j ?d"
  let ?ts = "take i (tasks s) @ drop (Suc i) (tasks s)"
  have st: "step (RunScraper os env uuid now i) s = \<lparr>store = ?d', tasks = ?ts\<rparr>"
    using True by simp
  from assms have inv: "db_inv ?d" and dist: "distinct (map Search_ID (tasks s))"
    and prog: "\<forall>j \<in> set (tasks s). \<exists>r \<in> set (searches ?d).
         s_id r = Search_ID j \<and> s_status r = ''In Progress''"
    by (simp_all add: sys_inv_def)
  from True have "?j \<in> set (tasks s)" by simp
  with prog obtain r where r: "r \<in> set (searches ?d)" "s_id r = ?sid"
    "s_status r = ''In Progress''" by blast
  from in_progress_count [OF inv r(1,3)] r(2) have c0: "count_leads ?sid ?d = 0" by simp
  from r(1,2) have mem: "?sid \<in> s_id ` set (searches ?d)" by (metis image_eqI)
  note dt = drop_task [OF dist True]
  have keep: "\<forall>j \<in> set ?ts. \<exists>r \<in> set (searches ?d).
       s_id r = Search_ID j \<and> s_id r \<noteq> ?sid \<and> s_status r = ''In Progress''"
    using dt(2) prog by metis
  from runScraper_cases [of os env uuid now ?j ?d] show ?thesis
  proof (elim disjE exE conjE)
    assume e: "?d' = ?d"
    have "\<forall>j \<in> set ?ts. \<exists>r \<in> set (searches ?d).
       s_id r = Search_ID j \<and> s_status r = ''In Progress''"
      using keep by blast
    with inv dt(1) show ?thesis unfolding st e by (simp add: sys_inv_def)
  next
    assume e: "?d' = updateSearchStatus env ?sid ''Failed'' ?d"
    have "\<forall>j \<in> set ?ts. \<exists>r \<in> set (searches ?d').
       s_id r = Search_ID j \<and> s_status r = ''In Progress''"
      unfolding e using keep other_rows_kept(1) by metis
    with db_inv_failed [OF inv c0, of env] dt(1) show ?thesis
      unfolding st e by (simp add: sys_inv_def)
  next
    fix new
    assume e: "?d' = completed ?sid (length new) new ?d"
      and new: "\<forall>l \<in> set new. l_search_id l = ?sid"
    have "\<forall>j \<in> set ?ts. \<exists>r \<in> set (searches ?d').
       s_id r = Search_ID j \<and> s_status r = ''In Progress''"
      unfolding e using keep other_rows_kept(2) by metis
    with db_inv_completed [OF inv c0 mem new] dt(1) show ?thesis
      unfolding st e by (simp add: sys_inv_def)
  qed
qed

lemma sys_inv_step:
  assumes "sys_inv s"
  shows "sys_inv (step e s)"
proof (cases e)
  case (StartSearch env u input sid now dbnow)
  with assms show ?thesis by (simp only: sys_inv_start)
next
  case (RunScraper os env uuid now i)
  with assms show ?thesis by (simp only: sys_inv_run)
next
  case (AddLeadsToCrm env u input)
  with assms show ?thesis
    by (simp add: sys_inv_def db_inv_cong [OF crm_handlers_frame(1,2)] crm_handlers_frame)
next
  case (UpdateCrmState env u input)
  with assms show ?thesis
    by (simp add: sys_inv_def db_inv_cong [OF crm_handlers_frame(3,4)] crm_handlers_frame)
next
  case (UpdateCrmLead env u lid input)
  with assms show ?thesis
    by (simp add: sys_inv_def db_inv_cong [OF crm_handlers_frame(5,6)] crm_handlers_frame)
qed

lemma sys_inv_exec:
  "sys_inv s \<Longrightarrow> sys_inv (exec evs s)"
  by (induction evs arbitrary: s) (simp_all add: sys_inv_step)

lemma sys_inv_init: "sys_inv init"
  by (simp add: sys_inv_def db_inv_def init_def)

subsection \<open>Decoding and the concrete runs\<close>

lemma Decode_acme: "Decode (Value acme) = Some acme_lead"
  by (simp add: acme_def acme_lead_def zero_ScrapedLead_def upper_def)

lemma step_start_job1:
  "step start_job1 init = \<lparr>store = job1_started, tasks = [job1]\<rparr>"
  by (simp add: start_job1_def job1_started_def startSearchHandler_def init_def no_faults_def
      JSON_def Let_def job1_def)

lemma decode_all_iff:
  "decode_all cs acc = Some out \<longleftrightarrow>
     (\<exists>ls. out = acc @ ls \<and> list_all2 (\<lambda>c l. Decode c = Some l) cs ls)"
proof (induction cs arbitrary: acc)
  case Nil
  then show ?case by auto
next
  case (Cons c cs)
  show ?case
  proof (cases "Decode c")
    case None
    then show ?thesis by (auto simp: list_all2_Cons1)
  next
    case (Some l)
    then show ?thesis by (auto simp: Cons.IH list_all2_Cons1)
  qed
qed

lemma decode_all_undecodable:
  assumes "c \<in> set cs" and "Decode c = None"
  shows "decode_all cs acc = None"
proof (rule ccontr)
  assume "decode_all cs acc \<noteq> None"
  then obtain out where "decode_all cs acc = Some out" by auto
  then obtain ls where "list_all2 (\<lambda>c l. Decode c = Some l) cs ls"
    by (auto simp: decode_all_iff)
  with assms(1) obtain l where "Decode c = Some l"
    by (auto simp: list_all2_conv_all_nth in_set_conv_nth)
  with assms(2) show False by simp
qed

lemma processScraperOutput_undecodable:
  assumes "files out = None \<or> (\<exists>content. files out = Some content \<and> decode_all content [] = None)"
  shows "processScraperOutput env uuid now files sid out d = updateSearchStatus env sid ''Failed'' d"
  using assms by (auto simp: processScraperOutput_def)

lemma runScraper_undecodable:
  assumes "Output os = None \<or> (\<exists>content. Output os = Some content \<and> decode_all content [] = None)"
  shows "runScraper os env uuid now j d = updateSearchStatus env (Search_ID j) ''Failed'' d"
  using assms by (auto simp: runScraper_def Let_def processScraperOutput_def)

lemma processScraperOutput_acme:
  assumes "files out = Some [Value acme]"
    and "\<not> env OpBegin" "\<not> env OpPrepare" "\<not> env (OpInsert 0)" "\<not> env OpUpdate" "\<not> env OpCommit"
    and "uuid 0 \<notin> l_id ` set (leads d)"
  shows "processScraperOutput env uuid now files sid out d =
         completed sid 1 [acme_row (uuid 0) sid now] d"
  using assms
  by (simp add: processScraperOutput_def Decode_acme completed_def acme_row_def
      acme_lead_def first_email_def Let_def)

lemma runScraper_acme:
  assumes "Output os = Some [Value acme]"
    and "\<not> CreateFails os" "\<not> WriteFails os" "\<not> CmdFails os"
    and "\<not> env OpBegin" "\<not> env OpPrepare" "\<not> env (OpInsert 0)" "\<not> env OpUpdate" "\<not> env OpCommit"
    and "uuid 0 \<notin> l_id ` set (leads d)"
  shows "runScraper os env uuid now j d =
         completed (Search_ID j) 1 [acme_row (uuid 0) (Search_ID j) now] d"
  using assms by (simp add: runScraper_def Let_def processScraperOutput_acme)

lemma exec_trace_stream:
  "store (exec trace_stream init) =
     \<lparr>searches = [\<lparr>s_id = ''job-1'', s_user_id = 1, s_keyword = ''plumbers in london'',
         s_status = ''Completed'', s_leads_found = Some 1, s_created_at = Some 1\<rparr>],
      leads = [acme_row ''lead-'' ''job-1'' 7], crm_leads = []\<rparr>"
proof -
  have "runScraper (tool (Some [Value acme])) no_faults uuids 7 job1 job1_started =
        completed (Search_ID job1) 1 [acme_row (uuids 0) (Search_ID job1) 7] job1_started"
    by (rule runScraper_acme) (simp_all add: no_faults_def job1_started_eq tool_def)
  then show ?thesis
    by (simp add: trace_stream_def step_start_job1 job1_def
        completed_def job1_started_eq uuids_def)
qed

lemma exec_trace_malformed:
  "store (exec trace_malformed init) =
     \<lparr>searches = [\<lparr>s_id = ''job-1'', s_user_id = 1, s_keyword = ''plumbers in london'',
         s_status = ''Failed'', s_leads_found = Some 0, s_created_at = Some 1\<rparr>],
      leads = [], crm_leads = []\<rparr>"
proof -
  have "runScraper (tool (Some [Value acme, Invalid])) no_faults uuids 7 job1 job1_started =
        updateSearchStatus no_faults (Search_ID job1) ''Failed'' job1_started"
    by (rule runScraper_undecodable) (simp add: tool_def Decode_acme)
  then show ?thesis
    by (simp add: trace_malformed_def step_start_job1 updateSearchStatus_def no_faults_def
        job1_def job1_started_eq)
qed

lemma exec_trace_array:
  "store (exec trace_array init) =
     \<lparr>searches = [\<lparr>s_id = ''job-1'', s_user_id = 1, s_keyword = ''plumbers in london'',
         s_status = ''Failed'', s_leads_found = Some 0, s_created_at = Some 1\<rparr>],
      leads = [], crm_leads = []\<rparr>"
proof -
  have "runScraper (tool (Some [Value (JArray [acme])])) no_faults uuids 7 job1 job1_started =
        updateSearchStatus no_faults (Search_ID job1) ''Failed'' job1_started"
    by (rule runScraper_undecodable) (simp add: tool_def)
  then show ?thesis
    by (simp add: trace_array_def step_start_job1 updateSearchStatus_def no_faults_def
        job1_def job1_started_eq)
qed

subsection \<open>Jobs in a terminal state\<close>

text \<open>
  C1, as amended. In every state the service reaches from the empty store, by any
  requests and job runs with any failures of the store, the tool and the file system:
  a job with status \<open>Completed\<close> has a found-count equal to the number of lead rows
  that refer to it, a job with status \<open>Failed\<close> has no lead row and found-count 0,
  and a job has no other status than \<open>In Progress\<close>, \<open>Completed\<close> or \<open>Failed\<close>.
\<close>

theorem terminal_jobs_consistent:
  assumes "r \<in> set (searches (store (exec evs init)))"
  shows "(s_status r = ''Completed'' \<longrightarrow>
            s_leads_found r = Some (int (count_leads (s_id r) (store (exec evs init)))))
       \<and> (s_status r = ''Failed'' \<longrightarrow>
            count_leads (s_id r) (store (exec evs init)) = 0 \<and> s_leads_found r = Some 0)
       \<and> (s_status r = ''In Progress'' \<or> s_status r = ''Completed'' \<or> s_status r = ''Failed'')"
proof -
  have "sys_inv (exec evs init)" by (rule sys_inv_exec) (rule sys_inv_init)
  with assms have "job_inv (store (exec evs init)) r"
    by (simp add: sys_inv_def db_inv_def)
  then show ?thesis by (auto simp: job_inv_def)
qed

theorem terminal_jobs_consistent_witness:
  "s_status (hd (searches (store (exec trace_stream init)))) = ''Completed''
   \<and> s_leads_found (hd (searches (store (exec trace_stream init)))) = Some 1
   \<and> count_leads ''job-1'' (store (exec trace_stream init)) = 1"
proof -
  have m: "hd (searches (store (exec trace_stream init)))
             \<in> set (searches (store (exec trace_stream init)))"
    by (simp add: exec_trace_stream)
  have c: "s_status (hd (searches (store (exec trace_stream init)))) = ''Completed''"
    and i: "s_id (hd (searches (store (exec trace_stream init)))) = ''job-1''"
    by (simp_all add: exec_trace_stream)
  have n: "count_leads ''job-1'' (store (exec trace_stream init)) = 1"
    by (simp add: exec_trace_stream count_leads_def acme_row_def)
  from terminal_jobs_consistent [OF m] c i n show ?thesis by simp
qed

text \<open>
  C1 as stated fails in its equivalence: the job whose output is malformed ends
  \<open>Failed\<close> with found-count 0 and no lead row, so its found-count equals its number
  of lead rows although it is not \<open>Completed\<close>.
\<close>

theorem failed_job_counts_agree:
  "s_status (hd (searches (store (exec trace_malformed init)))) = ''Failed''
   \<and> \<not> (s_status (hd (searches (store (exec trace_malformed init)))) = ''Completed'' \<longleftrightarrow>
          s_leads_found (hd (searches (store (exec trace_malformed init)))) =
          Some (int (count_leads (s_id (hd (searches (store (exec trace_malformed init)))))
                       (store (exec trace_malformed init)))))"
  by (simp add: exec_trace_malformed count_leads_def)

subsection \<open>An output that cannot be read or decoded\<close>

text \<open>
  C4, as amended. In any reachable state, when a job is run and its output file cannot
  be opened or the decoding loop meets an error (anywhere in the file, also after
  entries that decoded well), the run does nothing but \<open>updateSearchStatus\<close> to
  \<open>Failed\<close>. Whatever the store does: the leads table is unchanged, no lead row refers
  to the job, and the job's row exists with found-count 0. When the store carries out
  the status UPDATE the job's status is \<open>Failed\<close>; when the store refuses it the
  failure is only logged, the store is unchanged and the job stays \<open>In Progress\<close>.
\<close>

theorem import_decode_failure:
  assumes "i < length (tasks (exec evs init))"
    and "Output os = None \<or> (\<exists>content. Output os = Some content \<and> decode_all content [] = None)"
  shows "store (step (RunScraper os env uuid now i) (exec evs init)) =
           updateSearchStatus env (Search_ID (tasks (exec evs init) ! i)) ''Failed''
             (store (exec evs init))
       \<and> leads (store (step (RunScraper os env uuid now i) (exec evs init))) =
           leads (store (exec evs init))
       \<and> count_leads (Search_ID (tasks (exec evs init) ! i))
           (store (step (RunScraper os env uuid now i) (exec evs init))) = 0
       \<and> (\<exists>r \<in> set (searches (store (step (RunScraper os env uuid now i) (exec evs init)))).
             s_id r = Search_ID (tasks (exec evs init) ! i))
       \<and> (\<forall>r \<in> set (searches (store (step (RunScraper os env uuid now i) (exec evs init)))).
             s_id r = Search_ID (tasks (exec evs init) ! i) \<longrightarrow>
             s_leads_found r = Some 0 \<and> (\<not> env OpStatus \<longrightarrow> s_status r = ''Failed''))
       \<and> (env OpStatus \<longrightarrow>
             store (step (RunScraper os env uuid now i) (exec evs init)) = store (exec evs init)
           \<and> (\<exists>r \<in> set (searches (store (step (RunScraper os env uuid now i) (exec evs init)))).
                 s_id r = Search_ID (tasks (exec evs init) ! i) \<and> s_status r = ''In Progress''))"
proof -
  let ?s = "exec evs init"
  let ?sid = "Search_ID (tasks ?s ! i)"
  let ?d' = "updateSearchStatus env ?sid ''Failed'' (store ?s)"
  have inv: "sys_inv ?s" by (rule sys_inv_exec) (rule sys_inv_init)
  then have dinv: "db_inv (store ?s)" by (simp add: sys_inv_def)
  from assms(1) have "tasks ?s ! i \<in> set (tasks ?s)" by simp
  with inv obtain r where r: "r \<in> set (searches (store ?s))" "s_id r = ?sid"
    "s_status r = ''In Progress''"
    by (auto simp: sys_inv_def)
  from in_progress_count [OF dinv r(1,3)] r(2) have c0: "count_leads ?sid (store ?s) = 0"
    by simp
  have st: "store (step (RunScraper os env uuid now i) ?s) = ?d'"
    using assms(1) runScraper_undecodable [OF assms(2)] by simp
  have l: "leads ?d' = leads (store ?s)" by (rule updateSearchStatus_frame)
  then have c: "count_leads ?sid ?d' = 0" using c0 by (simp add: count_leads_def)
  have ids: "s_id ` set (searches ?d') = s_id ` set (searches (store ?s))"
    using updateSearchStatus_frame(3) [of env ?sid "''Failed''" "store ?s"]
    by (metis list.set_map)
  from r(1,2) have "?sid \<in> s_id ` set (searches (store ?s))" by (metis image_eqI)
  with ids have "?sid \<in> s_id ` set (searches ?d')" by simp
  then obtain r0 where "r0 \<in> set (searches ?d')" "?sid = s_id r0" by (rule imageE)
  then have ex: "\<exists>r \<in> set (searches ?d'). s_id r = ?sid"
    by (intro bexI [of _ r0]) simp_all
  have dinv': "db_inv ?d'" by (rule db_inv_failed [OF dinv c0])
  have all: "s_leads_found r' = Some 0 \<and> (\<not> env OpStatus \<longrightarrow> s_status r' = ''Failed'')"
    if "r' \<in> set (searches ?d')" "s_id r' = ?sid" for r'
  proof -
    from that(1) dinv' have "job_inv ?d' r'" by (simp add: db_inv_def)
    with c that(2) have "s_leads_found r' = Some 0" by (simp add: count_zero_found)
    moreover from that have "s_status r' = ''Failed''" if "\<not> env OpStatus"
      using \<open>\<not> env OpStatus\<close> by (auto simp: updateSearchStatus_def)
    ultimately show ?thesis by simp
  qed
  have refused: "?d' = store ?s \<and>
      (\<exists>r \<in> set (searches ?d'). s_id r = ?sid \<and> s_status r = ''In Progress'')"
    if "env OpStatus"
  proof -
    from that have e: "?d' = store ?s" by (simp add: updateSearchStatus_def)
    from r have "\<exists>r \<in> set (searches (store ?s)). s_id r = ?sid \<and> s_status r = ''In Progress''"
      by blast
    with e show ?thesis by simp
  qed
  have "?d' = ?d'
       \<and> leads ?d' = leads (store ?s)
       \<and> count_leads ?sid ?d' = 0
       \<and> (\<exists>r \<in> set (searches ?d'). s_id r = ?sid)
       \<and> (\<forall>r \<in> set (searches ?d'). s_id r = ?sid \<longrightarrow>
             s_leads_found r = Some 0 \<and> (\<not> env OpStatus \<longrightarrow> s_status r = ''Failed''))
       \<and> (env OpStatus \<longrightarrow> ?d' = store ?s
           \<and> (\<exists>r \<in> set (searches ?d'). s_id r = ?sid \<and> s_status r = ''In Progress''))"
  proof (intro conjI ballI impI)
    show "?d' = ?d'" ..
    show "leads ?d' = leads (store ?s)" by (rule l)
    show "count_leads ?sid ?d' = 0" by (rule c)
    show "\<exists>r \<in> set (searches ?d'). s_id r = ?sid" by (rule ex)
  next
    fix r' assume "r' \<in> set (searches ?d')" "s_id r' = ?sid"
    from all [OF this] show "s_leads_found r' = Some 0" ..
  next
    fix r' assume "r' \<in> set (searches ?d')" "s_id r' = ?sid" "\<not> env OpStatus"
    from all [OF this(1,2)] this(3) show "s_status r' = ''Failed''" by simp
  next
    assume "env OpStatus"
    from refused [OF this] show "?d' = store ?s" ..
  next
    assume "env OpStatus"
    from refused [OF this]
    show "\<exists>r \<in> set (searches ?d'). s_id r = ?sid \<and> s_status r = ''In Progress''" ..
  qed
  then show ?thesis unfolding st .
qed

lemma exec_trace_status_refused:
  "exec trace_status_refused init = \<lparr>store = job1_started, tasks = []\<rparr>"
proof -
  have "runScraper (tool (Some [Value acme, Invalid])) status_refused uuids 7 job1 job1_started =
        updateSearchStatus status_refused (Search_ID job1) ''Failed'' job1_started"
    by (rule runScraper_undecodable) (simp add: tool_def Decode_acme)
  then show ?thesis
    by (simp add: trace_status_refused_def step_start_job1 updateSearchStatus_def
        status_refused_def)
qed

theorem import_decode_failure_witness:
  "s_status (hd (searches (store
      (step (RunScraper (tool (Some [Value acme, Invalid])) no_faults uuids 7 0)
         (exec [start_job1] init))))) = ''Failed''
   \<and> count_leads ''job-1'' (store
      (step (RunScraper (tool (Some [Value acme, Invalid])) no_faults uuids 7 0)
         (exec [start_job1] init))) = 0
   \<and> store (step (RunScraper (tool (Some [Value acme, Invalid])) status_refused uuids 7 0)
         (exec [start_job1] init)) = store (exec [start_job1] init)"
proof -
  let ?s' = "step (RunScraper (tool (Some [Value acme, Invalid])) no_faults uuids 7 0)
         (exec [start_job1] init)"
  have i: "0 < length (tasks (exec [start_job1] init))"
    and j: "Search_ID (tasks (exec [start_job1] init) ! 0) = ''job-1''"
    by (simp_all add: step_start_job1 job1_def)
  have o: "Output (tool (Some [Value acme, Invalid])) = None \<or>
      (\<exists>content. Output (tool (Some [Value acme, Invalid])) = Some content \<and>
         decode_all content [] = None)"
    by (simp add: tool_def Decode_acme)
  have f: "\<not> no_faults OpStatus" "status_refused OpStatus"
    by (simp_all add: no_faults_def status_refused_def)
  have e: "?s' = exec trace_malformed init" by (simp add: trace_malformed_def)
  have m: "hd (searches (store ?s')) \<in> set (searches (store ?s'))"
    "s_id (hd (searches (store ?s'))) = ''job-1''"
    unfolding e by (simp_all add: exec_trace_malformed)
  note t = import_decode_failure [where evs = "[start_job1]" and i = 0 and env = no_faults
      and os = "tool (Some [Value acme, Invalid])" and uuid = uuids and now = 7]
  note t' = import_decode_failure [where evs = "[start_job1]" and i = 0
      and env = status_refused and os = "tool (Some [Value acme, Invalid])"
      and uuid = uuids and now = 7]
  from t i o f(1) have
    "count_leads (Search_ID (tasks (exec [start_job1] init) ! 0)) (store ?s') = 0"
    "\<forall>r \<in> set (searches (store ?s')).
       s_id r = Search_ID (tasks (exec [start_job1] init) ! 0) \<longrightarrow> s_status r = ''Failed''"
    by blast+
  moreover from t' i o f(2) have
    "store (step (RunScraper (tool (Some [Value acme, Invalid])) status_refused uuids 7 0)
         (exec [start_job1] init)) = store (exec [start_job1] init)"
    by blast
  ultimately show ?thesis using m j by simp
qed

text \<open>
  C4 as stated fails where the store refuses the status UPDATE: the output holds an
  object and then malformed text, decoding fails, the failure of the UPDATE is only
  logged, and the job, whose run is over, keeps the status \<open>In Progress\<close>.
\<close>

theorem decode_failure_status_unwritten:
  "decode_all [Value acme, Invalid] [] = None
   \<and> tasks (exec trace_status_refused init) = []
   \<and> map s_id (searches (store (exec trace_status_refused init))) = [''job-1'']
   \<and> map s_status (searches (store (exec trace_status_refused init))) = [''In Progress'']
   \<and> s_status (hd (searches (store (exec trace_status_refused init)))) \<noteq> ''Failed''"
  by (simp add: exec_trace_status_refused job1_started_eq Decode_acme)

subsection \<open>The output file is a stream of objects\<close>

text \<open>
  C2, as amended. The decoding loop yields one entry per top-level item of the file,
  in order, each decoded on its own, and fails when one of them fails. A top-level
  array is not an entry: for a file holding one, the import is a decode error that
  ends in \<open>updateSearchStatus\<close> to \<open>Failed\<close>, so no lead is imported whatever the
  store does, every row of the job has status \<open>Failed\<close> when the store carries out
  the status UPDATE, and the store is unchanged when it refuses it. For the file that
  holds the one object
  \<open>{"title":"Acme","phone":"555","web_site":"acme.com","emails":["a@acme.com"]}\<close>, not
  wrapped in an array, when the store carries out every statement of the import (the
  begin, the prepare, the insert, the update and the commit) and the identifier
  generated for the lead is no lead's id yet, the import commits exactly one lead
  row, with email \<open>a@acme.com\<close>, and sets the job to \<open>Completed\<close> with found-count 1.
\<close>

theorem scraper_output_is_a_stream:
  "(decode_all content [] = Some ls \<longleftrightarrow> list_all2 (\<lambda>c l. Decode c = Some l) content ls)
   \<and> Decode (Value (JArray js)) = None
   \<and> (files out = Some content \<and> Value (JArray js) \<in> set content \<longrightarrow>
        processScraperOutput env uuid now files sid out d =
          updateSearchStatus env sid ''Failed'' d
      \<and> leads (processScraperOutput env uuid now files sid out d) = leads d
      \<and> (\<not> env OpStatus \<longrightarrow>
           (\<forall>r \<in> set (searches (processScraperOutput env uuid now files sid out d)).
              s_id r = sid \<longrightarrow> s_status r = ''Failed''))
      \<and> (env OpStatus \<longrightarrow> processScraperOutput env uuid now files sid out d = d))
   \<and> (files out = Some [Value acme] \<and> \<not> env OpBegin \<and> \<not> env OpPrepare \<and>
        \<not> env (OpInsert 0) \<and> \<not> env OpUpdate \<and> \<not> env OpCommit \<and>
        uuid 0 \<notin> l_id ` set (leads d) \<longrightarrow>
        processScraperOutput env uuid now files sid out d =
        d\<lparr>leads := leads d @ [acme_row (uuid 0) sid now],
          searches := map (\<lambda>r. if s_id r = sid
                                 then r\<lparr>s_status := ''Completed'', s_leads_found := Some 1\<rparr>
                                 else r) (searches d)\<rparr>)"
proof -
  let ?d' = "processScraperOutput env uuid now files sid out d"
  have a: "decode_all content [] = Some ls \<longleftrightarrow>
      list_all2 (\<lambda>c l. Decode c = Some l) content ls"
    by (simp add: decode_all_iff)
  have b: "Decode (Value (JArray js)) = None" by simp
  have c: "?d' = updateSearchStatus env sid ''Failed'' d
      \<and> leads ?d' = leads d
      \<and> (\<not> env OpStatus \<longrightarrow> (\<forall>r \<in> set (searches ?d'). s_id r = sid \<longrightarrow> s_status r = ''Failed''))
      \<and> (env OpStatus \<longrightarrow> ?d' = d)"
    if "files out = Some content" "Value (JArray js) \<in> set content"
  proof -
    from that(2) b have "decode_all content [] = None" by (rule decode_all_undecodable)
    with that(1) have u: "files out = None \<or>
        (\<exists>content. files out = Some content \<and> decode_all content [] = None)"
      by simp
    have e: "?d' = updateSearchStatus env sid ''Failed'' d"
      by (rule processScraperOutput_undecodable [where files = files and out = out, OF u])
    have l: "leads (updateSearchStatus env sid ''Failed'' d) = leads d"
      by (rule updateSearchStatus_frame)
    have f: "s_status r = ''Failed''"
      if "\<not> env OpStatus" "r \<in> set (searches (updateSearchStatus env sid ''Failed'' d))"
        "s_id r = sid" for r
    proof -
      from that(1) have "searches (updateSearchStatus env sid ''Failed'' d) =
          map (\<lambda>r. if s_id r = sid then r\<lparr>s_status := ''Failed''\<rparr> else r) (searches d)"
        by (simp add: updateSearchStatus_def)
      with that(2) have
        "r \<in> (\<lambda>r. if s_id r = sid then r\<lparr>s_status := ''Failed''\<rparr> else r) ` set (searches d)"
        by (simp only: set_map)
      then obtain r0 where
        r0: "r = (if s_id r0 = sid then r0\<lparr>s_status := ''Failed''\<rparr> else r0)"
        by (rule imageE)
      show ?thesis
      proof (cases "s_id r0 = sid")
        case True
        then show ?thesis by (simp add: r0)
      next
        case False
        with that(3) show ?thesis by (simp add: r0)
      qed
    qed
    have r: "updateSearchStatus env sid ''Failed'' d = d" if "env OpStatus"
      using that by (simp add: updateSearchStatus_def)
    show ?thesis
      unfolding e
    proof (intro conjI impI ballI)
      show "updateSearchStatus env sid ''Failed'' d = updateSearchStatus env sid ''Failed'' d" ..
      show "leads (updateSearchStatus env sid ''Failed'' d) = leads d" by (rule l)
    next
      fix r
      assume "\<not> env OpStatus" "r \<in> set (searches (updateSearchStatus env sid ''Failed'' d))"
        "s_id r = sid"
      then show "s_status r = ''Failed''" by (rule f)
    next
      assume "env OpStatus"
      then show "updateSearchStatus env sid ''Failed'' d = d" by (rule r)
    qed
  qed
  have d: "?d' =
        d\<lparr>leads := leads d @ [acme_row (uuid 0) sid now],
          searches := map (\<lambda>r. if s_id r = sid
                                 then r\<lparr>s_status := ''Completed'', s_leads_found := Some 1\<rparr>
                                 else r) (searches d)\<rparr>"
    if "files out = Some [Value acme]" "\<not> env OpBegin" "\<not> env OpPrepare"
        "\<not> env (OpInsert 0)" "\<not> env OpUpdate" "\<not> env OpCommit"
        "uuid 0 \<notin> l_id ` set (leads d)"
    using that by (simp add: processScraperOutput_acme completed_def)
  have c': "files out = Some content \<and> Value (JArray js) \<in> set content \<longrightarrow>
        ?d' = updateSearchStatus env sid ''Failed'' d
      \<and> leads ?d' = leads d
      \<and> (\<not> env OpStatus \<longrightarrow>
           (\<forall>r \<in> set (searches ?d'). s_id r = sid \<longrightarrow> s_status r = ''Failed''))
      \<and> (env OpStatus \<longrightarrow> ?d' = d)"
  proof (rule impI)
    assume "files out = Some content \<and> Value (JArray js) \<in> set content"
    then have "files out = Some content" "Value (JArray js) \<in> set content"
      by (rule conjunct1, rule conjunct2)
    then show "?d' = updateSearchStatus env sid ''Failed'' d
      \<and> leads ?d' = leads d
      \<and> (\<not> env OpStatus \<longrightarrow>
           (\<forall>r \<in> set (searches ?d'). s_id r = sid \<longrightarrow> s_status r = ''Failed''))
      \<and> (env OpStatus \<longrightarrow> ?d' = d)"
      by (rule c)
  qed
  have d': "files out = Some [Value acme] \<and> \<not> env OpBegin \<and> \<not> env OpPrepare \<and>
        \<not> env (OpInsert 0) \<and> \<not> env OpUpdate \<and> \<not> env OpCommit \<and>
        uuid 0 \<notin> l_id ` set (leads d) \<longrightarrow>
        ?d' =
        d\<lparr>leads := leads d @ [acme_row (uuid 0) sid now],
          searches := map (\<lambda>r. if s_id r = sid
                                 then r\<lparr>s_status := ''Completed'', s_leads_found := Some 1\<rparr>
                                 else r) (searches d)\<rparr>"
  proof (rule impI)
    assume "files out = Some [Value acme] \<and> \<not> env OpBegin \<and> \<not> env OpPrepare \<and>
        \<not> env (OpInsert 0) \<and> \<not> env OpUpdate \<and> \<not> env OpCommit \<and>
        uuid 0 \<notin> l_id ` set (leads d)"
    then have "files out = Some [Value acme]" "\<not> env OpBegin" "\<not> env OpPrepare"
        "\<not> env (OpInsert 0)" "\<not> env OpUpdate" "\<not> env OpCommit"
        "uuid 0 \<notin> l_id ` set (leads d)"
      by blast+
    then show "?d' =
        d\<lparr>leads := leads d @ [acme_row (uuid 0) sid now],
          searches := map (\<lambda>r. if s_id r = sid
                                 then r\<lparr>s_status := ''Completed'', s_leads_found := Some 1\<rparr>
                                 else r) (searches d)\<rparr>"
      by (rule d)
  qed
  from a b c' d' show ?thesis by (intro conjI)
qed

theorem scraper_output_is_a_stream_witness:
  "decode_all [Value acme, Value acme] [] = Some [acme_lead, acme_lead]
   \<and> processScraperOutput no_faults uuids 7 (one_file ''out.json'' [Value (JArray [acme])])
        ''job-1'' ''out.json'' job1_started =
      updateSearchStatus no_faults ''job-1'' ''Failed'' job1_started
   \<and> leads (processScraperOutput no_faults uuids 7 (one_file ''out.json'' [Value acme])
        ''job-1'' ''out.json'' job1_started) = [acme_row ''lead-'' ''job-1'' 7]
   \<and> map s_status (searches (processScraperOutput no_faults uuids 7
        (one_file ''out.json'' [Value acme]) ''job-1'' ''out.json'' job1_started)) = [''Completed'']
   \<and> map s_leads_found (searches (processScraperOutput no_faults uuids 7
        (one_file ''out.json'' [Value acme]) ''job-1'' ''out.json'' job1_started)) = [Some 1]"
proof -
  have l: "list_all2 (\<lambda>c l. Decode c = Some l) [Value acme, Value acme] [acme_lead, acme_lead]"
    by (simp add: Decode_acme)
  have f1: "one_file ''out.json'' [Value (JArray [acme])] ''out.json'' =
      Some [Value (JArray [acme])] \<and> Value (JArray [acme]) \<in> set [Value (JArray [acme])]"
    by (simp add: one_file_def)
  have f2: "one_file ''out.json'' [Value acme] ''out.json'' = Some [Value acme] \<and>
      \<not> no_faults OpBegin \<and> \<not> no_faults OpPrepare \<and> \<not> no_faults (OpInsert 0) \<and>
      \<not> no_faults OpUpdate \<and> \<not> no_faults OpCommit \<and>
      uuids 0 \<notin> l_id ` set (leads job1_started)"
    by (simp add: one_file_def no_faults_def job1_started_eq)
  note t1 = scraper_output_is_a_stream [of "[Value acme, Value acme]" "[acme_lead, acme_lead]"
      "[acme]" "one_file ''out.json'' [Value (JArray [acme])]" "''out.json''" no_faults uuids 7
      "''job-1''" job1_started]
  note t2 = scraper_output_is_a_stream [of "[Value acme]" "[acme_lead]"
      "[acme]" "one_file ''out.json'' [Value acme]" "''out.json''" no_faults uuids 7
      "''job-1''" job1_started]
  from t1 l have a: "decode_all [Value acme, Value acme] [] = Some [acme_lead, acme_lead]"
    by blast
  note t3 = scraper_output_is_a_stream [of "[Value (JArray [acme])]" "[]"
      "[acme]" "one_file ''out.json'' [Value (JArray [acme])]" "''out.json''" no_faults uuids 7
      "''job-1''" job1_started]
  from t3 f1 have b: "processScraperOutput no_faults uuids 7
        (one_file ''out.json'' [Value (JArray [acme])]) ''job-1'' ''out.json'' job1_started =
      updateSearchStatus no_faults ''job-1'' ''Failed'' job1_started"
    by blast
  from t2 f2 have c: "processScraperOutput no_faults uuids 7
        (one_file ''out.json'' [Value acme]) ''job-1'' ''out.json'' job1_started =
      job1_started\<lparr>leads := leads job1_started @ [acme_row (uuids 0) ''job-1'' 7],
          searches := map (\<lambda>r. if s_id r = ''job-1''
                                 then r\<lparr>s_status := ''Completed'', s_leads_found := Some 1\<rparr>
                                 else r) (searches job1_started)\<rparr>"
    by blast
  have "leads (job1_started\<lparr>leads := leads job1_started @ [acme_row (uuids 0) ''job-1'' 7],
          searches := map (\<lambda>r. if s_id r = ''job-1''
                                 then r\<lparr>s_status := ''Completed'', s_leads_found := Some 1\<rparr>
                                 else r) (searches job1_started)\<rparr>) = [acme_row ''lead-'' ''job-1'' 7]"
    "map s_status (searches (job1_started\<lparr>leads := leads job1_started @ [acme_row (uuids 0) ''job-1'' 7],
          searches := map (\<lambda>r. if s_id r = ''job-1''
                                 then r\<lparr>s_status := ''Completed'', s_leads_found := Some 1\<rparr>
                                 else r) (searches job1_started)\<rparr>)) = [''Completed'']"
    "map s_leads_found (searches (job1_started\<lparr>leads := leads job1_started @ [acme_row (uuids 0) ''job-1'' 7],
          searches := map (\<lambda>r. if s_id r = ''job-1''
                                 then r\<lparr>s_status := ''Completed'', s_leads_found := Some 1\<rparr>
                                 else r) (searches job1_started)\<rparr>)) = [Some 1]"
    by (simp_all add: job1_started_eq uuids_def)
  with a b show ?thesis by (simp only: c)
qed

text \<open>
  C2 as stated fails: for the one-element array of the scenario the entries differ
  from those of the stream, no lead row is committed and the job ends \<open>Failed\<close>.
\<close>

theorem array_output_fails_import:
  "processScraperOutput no_faults uuids 7 (one_file ''out.json'' [Value (JArray [acme])])
      ''job-1'' ''out.json'' job1_started =
     \<lparr>searches = [\<lparr>s_id = ''job-1'', s_user_id = 1, s_keyword = ''plumbers in london'',
         s_status = ''Failed'', s_leads_found = Some 0, s_created_at = Some 1\<rparr>],
      leads = [], crm_leads = []\<rparr>
   \<and> decode_all [Value (JArray [acme])] [] \<noteq> decode_all [Value acme] []
   \<and> leads (store (exec trace_array init)) = []
   \<and> map s_status (searches (store (exec trace_array init))) = [''Failed'']"
  by (simp add: processScraperOutput_def one_file_def updateSearchStatus_def no_faults_def
      job1_started_eq Decode_acme exec_trace_array)

end
